theory Spec2Isabelle
  imports Complex_Main "HOL-Library.Log_Nat" "HOL-Library.Sublist"
begin

section \<open>JavaScript numbers\<close>

text \<open>
  A finite Number is modelled by the rational it denotes. Every arithmetic operation of
  the program yields the exact result rounded to binary64: to the nearest value with a
  53 bit significand, ties to the even significand, with the least exponent \<open>-1022\<close>
  (so that the subnormal numbers are covered). Overflow is not modelled; every number the
  program computes is far below \<open>2^1024\<close> in magnitude.
\<close>

text \<open>\<open>ilog2 x\<close> is the exponent \<open>e\<close> with \<open>2^e \<le> |x| < 2^(e+1)\<close>, for \<open>x \<noteq> 0\<close>.\<close>

definition ilog2 :: "rat \<Rightarrow> int" where
  "ilog2 x = (let (p, q) = quotient_of \<bar>x\<bar>; e = bitlen p - bitlen q
              in if 2 powi e \<le> \<bar>x\<bar> then e else e - 1)"

text \<open>Rounding to the nearest integer, ties to even.\<close>

definition rne :: "rat \<Rightarrow> int" where
  "rne y = (let f = \<lfloor>y\<rfloor>; d = y - of_int f
            in if d < 1 / 2 then f else if 1 / 2 < d then f + 1
               else if even f then f else f + 1)"

definition expo :: "rat \<Rightarrow> int" where
  "expo x = max (ilog2 x) (- 1022)"

definition ulp :: "rat \<Rightarrow> rat" where
  "ulp x = 2 powi (expo x - 52)"

definition fl :: "rat \<Rightarrow> rat" where
  "fl x = of_int (rne (x / ulp x)) * ulp x"

definition js_add :: "rat \<Rightarrow> rat \<Rightarrow> rat" where
  "js_add a b = fl (a + b)"

definition js_sub :: "rat \<Rightarrow> rat \<Rightarrow> rat" where
  "js_sub a b = fl (a - b)"

definition js_mul :: "rat \<Rightarrow> rat \<Rightarrow> rat" where
  "js_mul a b = fl (a * b)"


text \<open>The sequence of calls of \<open>Math.random()\<close> that all return \<open>r\<close>.\<close>

definition always :: "rat \<Rightarrow> nat \<Rightarrow> rat" where
  "always r k = r"

section \<open>Numbers as strings\<close>

text \<open>
  The string a template literal makes of an integral Number (below \<open>10^21\<close> in magnitude):
  its decimal digits, after a minus sign if it is negative.
\<close>

definition digit_char :: "nat \<Rightarrow> char" where
  "digit_char n = ''0123456789'' ! n"

fun digits :: "nat \<Rightarrow> string" where
  "digits n = (if n < 10 then [digit_char n] else digits (n div 10) @ [digit_char (n mod 10)])"

declare digits.simps [simp del]

definition js_string_of_int :: "int \<Rightarrow> string" where
  "js_string_of_int i = (if i < 0 then CHR ''-'' # digits (nat (- i)) else digits (nat i))"

section \<open>Ground blocks\<close>

text \<open>
  A mounted \<open>GroundBlock\<close> component together with the entry of the scene's
  \<open>blocks\<close> array it is rendered from. The array entry contributes \<open>pos\<close>, \<open>id\<close>,
  \<open>hasGold\<close> and \<open>depth\<close> (passed down as props, the id as React key); \<open>dugLevel\<close> is
  the component's own \<open>useState(0)\<close>. Components are keyed by the entry's id, so the
  local state lives exactly as long as the entry is in the array.
  The \<open>hovered\<close> flag only selects a colour and is left out.
\<close>

type_synonym vec3i = "int \<times> int \<times> int"

record GroundBlock =
  pos :: vec3i
  bid :: string
  hasGold :: bool
  depth :: int
  dugLevel :: nat

text \<open>
  \<open>handleClick\<close> (the \<open>stopPropagation\<close> call has no effect on the state):
  \<^verbatim>\<open>if (dugLevel < 3) { setDugLevel(dugLevel + 1); if (dugLevel === 2) onDig(position, hasGold) }\<close>
  The result is the component after the click and the call of \<open>onDig\<close> the click made,
  if it made one. Every click is served by the handler of the render that has seen all
  earlier clicks.
\<close>

definition GroundBlock_handleClick :: "GroundBlock \<Rightarrow> GroundBlock \<times> (vec3i \<times> bool) option" where
  "GroundBlock_handleClick b =
     (if dugLevel b < 3
      then (b\<lparr>dugLevel := dugLevel b + 1\<rparr>,
            if dugLevel b = 2 then Some (pos b, hasGold b) else None)
      else (b, None))"

text \<open>\<^verbatim>\<open>if (dugLevel >= 3) return null\<close>: whether the component renders a mesh.\<close>

definition GroundBlock_renders :: "GroundBlock \<Rightarrow> bool" where
  "GroundBlock_renders b = (\<not> 3 \<le> dugLevel b)"

text \<open>
  A series of \<open>n\<close> clicks on one block: the block afterwards and the \<open>onDig\<close> calls made,
  in order.
\<close>

fun GroundBlock_clicks :: "nat \<Rightarrow> GroundBlock \<Rightarrow> GroundBlock \<times> (vec3i \<times> bool) list" where
  "GroundBlock_clicks 0 b = (b, [])"
| "GroundBlock_clicks (Suc n) b =
     (let (b1, call) = GroundBlock_handleClick b;
          (b2, calls) = GroundBlock_clicks n b1
      in (b2, (case call of None \<Rightarrow> [] | Some c \<Rightarrow> [c]) @ calls))"


type_synonym vec3 = "rat \<times> rat \<times> rat"

text \<open>The id of the block at a position: \<^verbatim>\<open>`${x}-${y}-${z}`\<close>.\<close>

definition block_id :: "vec3i \<Rightarrow> string" where
  "block_id p =
     (case p of (x, y, z) \<Rightarrow>
        js_string_of_int x @ ''-'' @ js_string_of_int y @ ''-'' @ js_string_of_int z)"

section \<open>Gold nuggets\<close>

text \<open>
  A mounted \<open>GoldNugget\<close> component with the entry of the scene's \<open>nuggets\<close> array it is
  rendered from (\<open>pos\<close> and \<open>id\<close>); \<open>collected\<close> is the component's \<open>useState(false)\<close>. The
  \<open>scale\<close> state and the rotation only drive the animation and are left out.
\<close>

record GoldNugget =
  npos :: vec3
  nid :: nat
  collected :: bool

text \<open>
  \<open>handleClick\<close>:
  \<^verbatim>\<open>if (!collected) { setCollected(true); setTimeout(() => onCollect(id), 300) }\<close>
  The result is the component after the click and, if the click scheduled one, the id the
  scheduled call of \<open>onCollect\<close> will be given.
\<close>

definition GoldNugget_handleClick :: "GoldNugget \<Rightarrow> GoldNugget \<times> nat option" where
  "GoldNugget_handleClick n =
     (if \<not> collected n then (n\<lparr>collected := True\<rparr>, Some (nid n)) else (n, None))"

section \<open>Dirt particles\<close>

text \<open>
  A mounted \<open>DirtParticle\<close> component with the entry of the scene's \<open>particles\<close> array it
  is rendered from: \<open>ppos\<close> is the position of its mesh (initially the entry's \<open>pos\<close>),
  \<open>vel\<close> the entry's velocity vector, which the component updates in place, and \<open>opacity\<close>
  the component's \<open>useState(1)\<close>.
\<close>

record DirtParticle =
  pid :: nat
  ppos :: vec3
  vel :: vec3
  opacity :: rat

text \<open>\<^verbatim>\<open>if (opacity <= 0) return null\<close>: whether the component renders its mesh.\<close>

definition DirtParticle_renders :: "DirtParticle \<Rightarrow> bool" where
  "DirtParticle_renders p = (\<not> opacity p \<le> 0)"

text \<open>
  The frame callback, given the time \<open>delta\<close> since the last frame:
  \<^verbatim>\<open>if (meshRef.current) {
    meshRef.current.position.add(velocity.clone().multiplyScalar(delta))
    velocity.y -= delta * 15
    setOpacity(Math.max(0, opacity - delta * 2)) }\<close>
  \<open>meshRef.current\<close> is the mesh while the component renders one and \<open>null\<close> otherwise.
\<close>

definition DirtParticle_useFrame :: "rat \<Rightarrow> DirtParticle \<Rightarrow> DirtParticle" where
  "DirtParticle_useFrame delta p =
     (if DirtParticle_renders p
      then (case (ppos p, vel p) of ((x, y, z), (vx, vy, vz)) \<Rightarrow>
              p\<lparr>ppos := (js_add x (js_mul vx delta), js_add y (js_mul vy delta),
                        js_add z (js_mul vz delta)),
                vel := (vx, js_sub vy (js_mul delta 15), vz),
                opacity := max 0 (js_sub (opacity p) (js_mul delta 2))\<rparr>)
      else p)"

section \<open>The state of the game\<close>

text \<open>
  A pending timer of the browser: its id, the time (in ms) at which it is due, and its
  callback. The program has two callbacks: \<^verbatim>\<open>() => setCombo(0)\<close>, and
  \<^verbatim>\<open>() => onCollect(id)\<close> of a nugget. The latter is a closure: its \<open>onCollect\<close> is the
  \<open>handleCollectGold\<close> of the render in which the nugget was clicked, whose
  \<open>onGoldCollect\<close> is the \<open>handleGoldCollect\<close> of that render, which reads the \<open>combo\<close> of
  that render. \<open>OnCollect i c\<close> stands for this closure, with the id \<open>i\<close> and the value \<open>c\<close>
  of \<open>combo\<close> it has captured.
\<close>

datatype callback = ResetCombo | OnCollect nat nat

record timer =
  tid :: nat
  due :: nat
  cb :: callback

text \<open>
  The state of \<open>App\<close> (\<open>gold\<close>, \<open>digs\<close>, \<open>combo\<close>, \<open>comboTimerRef\<close>, where \<open>None\<close> is
  \<open>null\<close>), the state of \<open>GameScene\<close> (\<open>blocks\<close>, \<open>nuggets\<close>, \<open>particles\<close> with the
  components rendered from them, \<open>nuggetIdRef\<close>, \<open>particleIdRef\<close>), and the browser's
  clock (in ms), pending timers (in the order of their creation) and next timer id.
  The counters are integral Numbers far below \<open>2^53\<close>, where the arithmetic on them is
  exact.
\<close>

record game =
  gold :: nat
  digs :: nat
  combo :: nat
  comboTimerRef :: "nat option"
  blocks :: "GroundBlock list"
  nuggets :: "GoldNugget list"
  particles :: "DirtParticle list"
  nuggetIdRef :: nat
  particleIdRef :: nat
  now :: nat
  timers :: "timer list"
  timerSeq :: nat

definition setTimeout :: "callback \<Rightarrow> nat \<Rightarrow> game \<Rightarrow> nat \<times> game" where
  "setTimeout f ms g =
     (timerSeq g,
      g\<lparr>timers := timers g @ [\<lparr>tid = timerSeq g, due = now g + ms, cb = f\<rparr>],
        timerSeq := timerSeq g + 1\<rparr>)"

definition clearTimeout :: "nat \<Rightarrow> game \<Rightarrow> game" where
  "clearTimeout t g = g\<lparr>timers := filter (\<lambda>u. tid u \<noteq> t) (timers g)\<rparr>"

section \<open>App\<close>

text \<open>
  \<open>handleGoldCollect\<close>, as the closure that has captured the value \<open>combo_seen\<close> of \<open>combo\<close>
  (\<open>useCallback\<close> with the dependency \<open>combo\<close>):
  \<^verbatim>\<open>const bonus = Math.floor(combo / 3) + 1
  setGold(prev => prev + bonus); setCombo(prev => prev + 1)
  if (comboTimerRef.current) clearTimeout(comboTimerRef.current)
  comboTimerRef.current = setTimeout(() => setCombo(0), 2000)\<close>
  The two updater functions read the current state; \<open>bonus\<close> is computed from the captured
  value. A timer id is truthy unless it is 0.
\<close>

definition App_handleGoldCollect :: "nat \<Rightarrow> game \<Rightarrow> game" where
  "App_handleGoldCollect combo_seen g =
     (let bonus = combo_seen div 3 + 1;
          g1 = g\<lparr>gold := gold g + bonus, combo := combo g + 1\<rparr>;
          g2 = (case comboTimerRef g1 of
                  None \<Rightarrow> g1
                | Some t \<Rightarrow> if t \<noteq> 0 then clearTimeout t g1 else g1);
          (t', g3) = setTimeout ResetCombo 2000 g2
      in g3\<lparr>comboTimerRef := Some t'\<rparr>)"

text \<open>\<open>handleDig\<close>: \<^verbatim>\<open>setDigs(prev => prev + 1)\<close>.\<close>

definition App_handleDig :: "game \<Rightarrow> game" where
  "App_handleDig g = g\<lparr>digs := digs g + 1\<rparr>"

section \<open>GameScene\<close>

text \<open>\<^verbatim>\<open>const goldChance = depth * 0.03 + 0.02\<close>\<close>

definition goldChance :: "int \<Rightarrow> rat" where
  "goldChance d = js_add (js_mul (of_int d) (fl (3 / 100))) (fl (2 / 100))"

text \<open>
  The grid initialisation (the effect with no dependencies, run when the scene is
  mounted): three nested loops, \<open>x\<close> from -4 to 4, \<open>y\<close> from -5 to 0, \<open>z\<close> from -4 to 4,
  pushing one block per iteration. The block pushed by iteration \<open>k\<close> takes the \<open>k\<close>-th
  call of \<open>Math.random()\<close>.
\<close>

definition grid_cells :: "vec3i list" where
  "grid_cells = [(x, y, z). x \<leftarrow> [-4..4], y \<leftarrow> [-5..0], z \<leftarrow> [-4..4]]"

definition new_block :: "rat \<Rightarrow> vec3i \<Rightarrow> GroundBlock" where
  "new_block r p =
     (case p of (x, y, z) \<Rightarrow>
        \<lparr>pos = (x, y, z), bid = block_id (x, y, z), hasGold = (r < goldChance (- y)),
         depth = - y, dugLevel = 0\<rparr>)"

definition init_blocks :: "(nat \<Rightarrow> rat) \<Rightarrow> GroundBlock list" where
  "init_blocks rnd = map (\<lambda>(k, p). new_block (rnd k) p) (enumerate 0 grid_cells)"

text \<open>The game once \<open>App\<close> and \<open>GameScene\<close> are mounted and the grid is initialised.\<close>

definition mount :: "(nat \<Rightarrow> rat) \<Rightarrow> game" where
  "mount rnd =
     \<lparr>gold = 0, digs = 0, combo = 0, comboTimerRef = None,
      blocks = init_blocks rnd, nuggets = [], particles = [],
      nuggetIdRef = 0, particleIdRef = 0, now = 0, timers = [], timerSeq = 1\<rparr>"

text \<open>
  \<open>handleDig(pos, hasGold)\<close>, given the \<open>onDig\<close> it calls first. Particle \<open>i\<close> of the
  eight takes the calls \<open>3 i\<close>, \<open>3 i + 1\<close> and \<open>3 i + 2\<close> of \<open>Math.random()\<close>:
  \<^verbatim>\<open>pos: new THREE.Vector3(pos[0], pos[1] + 0.5, pos[2]),
  vel: new THREE.Vector3((Math.random() - 0.5) * 8, Math.random() * 6 + 2,
                         (Math.random() - 0.5) * 8)\<close>
\<close>

definition new_particle :: "(nat \<Rightarrow> rat) \<Rightarrow> vec3i \<Rightarrow> nat \<Rightarrow> nat \<Rightarrow> DirtParticle" where
  "new_particle rnd p first i =
     (case p of (x, y, z) \<Rightarrow>
        \<lparr>pid = first + i,
         ppos = (of_int x, js_add (of_int y) (1 / 2), of_int z),
         vel = (js_mul (js_sub (rnd (3 * i)) (1 / 2)) 8,
                js_add (js_mul (rnd (3 * i + 1)) 6) 2,
                js_mul (js_sub (rnd (3 * i + 2)) (1 / 2)) 8),
         opacity = 1\<rparr>)"

definition new_nugget :: "vec3i \<Rightarrow> nat \<Rightarrow> GoldNugget" where
  "new_nugget p i =
     (case p of (x, y, z) \<Rightarrow>
        \<lparr>npos = (of_int x, js_add (of_int y) (1 / 2), of_int z), nid = i, collected = False\<rparr>)"

definition GameScene_handleDig ::
    "(game \<Rightarrow> game) \<Rightarrow> (nat \<Rightarrow> rat) \<Rightarrow> vec3i \<Rightarrow> bool \<Rightarrow> game \<Rightarrow> game" where
  "GameScene_handleDig onDig rnd p gold_found g =
     (let g1 = onDig g;
          newParticles = map (new_particle rnd p (particleIdRef g1)) [0..<8];
          g2 = g1\<lparr>particleIdRef := particleIdRef g1 + 8,
                 particles := particles g1 @ newParticles\<rparr>;
          g3 = g2\<lparr>blocks := filter (\<lambda>b. bid b \<noteq> block_id p) (blocks g2)\<rparr>
      in if gold_found
         then g3\<lparr>nuggets := nuggets g3 @ [new_nugget p (nuggetIdRef g3)],
                 nuggetIdRef := nuggetIdRef g3 + 1\<rparr>
         else g3)"

text \<open>
  \<open>handleCollectGold(id)\<close>, given the \<open>onGoldCollect\<close> it has captured:
  \<^verbatim>\<open>setNuggets(prev => prev.filter(n => n.id !== id)); onGoldCollect()\<close>
\<close>

definition GameScene_handleCollectGold :: "(game \<Rightarrow> game) \<Rightarrow> nat \<Rightarrow> game \<Rightarrow> game" where
  "GameScene_handleCollectGold onGoldCollect i g =
     onGoldCollect (g\<lparr>nuggets := filter (\<lambda>n. nid n \<noteq> i) (nuggets g)\<rparr>)"

section \<open>Events\<close>

fun run_callback :: "callback \<Rightarrow> game \<Rightarrow> game" where
  "run_callback ResetCombo g = g\<lparr>combo := 0\<rparr>"
| "run_callback (OnCollect i c) g = GameScene_handleCollectGold (App_handleGoldCollect c) i g"

text \<open>
  The pending timer that runs next when the clock advances to \<open>deadline\<close>: among those due by
  then, the one due first, and of several due at the same time the one created first.
\<close>

definition next_timer :: "nat \<Rightarrow> game \<Rightarrow> timer option" where
  "next_timer deadline g =
     (case filter (\<lambda>t. due t \<le> deadline) (timers g) of
        [] \<Rightarrow> None
      | t # ts \<Rightarrow> Some (fold (\<lambda>a b. if due a < due b then a else b) ts t))"

definition fire :: "timer \<Rightarrow> game \<Rightarrow> game" where
  "fire t g =
     run_callback (cb t)
       (g\<lparr>now := max (now g) (due t), timers := filter (\<lambda>u. tid u \<noteq> tid t) (timers g)\<rparr>)"

definition timer_weight :: "timer \<Rightarrow> nat" where
  "timer_weight t = (case cb t of ResetCombo \<Rightarrow> 1 | OnCollect i c \<Rightarrow> 2)"

text \<open>The clock advances to \<open>deadline\<close>; every timer due by then runs, at its time.\<close>

function run_timers :: "nat \<Rightarrow> game \<Rightarrow> game" where
  "run_timers deadline g =
     (case next_timer deadline g of
        None \<Rightarrow> g\<lparr>now := max (now g) deadline\<rparr>
      | Some t \<Rightarrow> run_timers deadline (fire t g))"
  by pat_completeness auto
termination
proof (relation "measure (\<lambda>(deadline, g). sum_list (map timer_weight (timers g)))")
  show "wf (measure (\<lambda>(deadline, g). sum_list (map timer_weight (timers g))))"
    by simp
next
  fix deadline :: nat and g :: game and t :: timer
  assume nt: "next_timer deadline g = Some t"
  have fold_in: "fold (\<lambda>a b. if due a < due b then a else b) ts u \<in> set (u # ts)"
    for ts :: "timer list" and u
    by (induction ts arbitrary: u) auto
  obtain u ts where f: "filter (\<lambda>t. due t \<le> deadline) (timers g) = u # ts"
    and t: "t = fold (\<lambda>a b. if due a < due b then a else b) ts u"
    using nt by (auto simp add: next_timer_def split: list.splits)
  have "t \<in> set (u # ts)"
    unfolding t by (rule fold_in)
  then have "t \<in> set (filter (\<lambda>t. due t \<le> deadline) (timers g))"
    by (simp only: f)
  then have mem: "t \<in> set (timers g)"
    by simp
  have drop: "sum_list (map timer_weight (filter (\<lambda>u. tid u \<noteq> tid t) ts)) + timer_weight t
      \<le> sum_list (map timer_weight ts)" if "t \<in> set ts" for ts
    using that
  proof (induction ts)
    case Nil
    then show ?case by simp
  next
    case (Cons a ts)
    have le: "sum_list (map timer_weight (filter (\<lambda>u. tid u \<noteq> tid t) ts))
        \<le> sum_list (map timer_weight ts)"
      by (induction ts) auto
    show ?case
    proof (cases "a = t")
      case True
      with le show ?thesis by simp
    next
      case False
      with Cons have "sum_list (map timer_weight (filter (\<lambda>u. tid u \<noteq> tid t) ts))
          + timer_weight t \<le> sum_list (map timer_weight ts)"
        by simp
      then show ?thesis by simp
    qed
  qed
  have keep: "sum_list (map timer_weight (filter (\<lambda>u. P u \<and> Q u) ts))
      \<le> sum_list (map timer_weight (filter P ts))"
    for P Q and ts :: "timer list"
    by (induction ts) auto
  define rest where "rest = filter (\<lambda>u. tid u \<noteq> tid t) (timers g)"
  have rest: "sum_list (map timer_weight rest) + timer_weight t
      \<le> sum_list (map timer_weight (timers g))"
    unfolding rest_def using mem by (rule drop)
  have "sum_list (map timer_weight (timers (fire t g))) < sum_list (map timer_weight (timers g))"
  proof (cases "cb t")
    case ResetCombo
    then have "timers (fire t g) = rest" "timer_weight t = 1"
      by (simp_all add: fire_def rest_def timer_weight_def)
    with rest show ?thesis by simp
  next
    case (OnCollect i c)
    then have w: "timer_weight t = 2"
      by (simp add: timer_weight_def)
    have "sum_list (map timer_weight (timers (fire t g))) \<le> sum_list (map timer_weight rest) + 1"
      by (simp add: fire_def OnCollect GameScene_handleCollectGold_def App_handleGoldCollect_def
          setTimeout_def clearTimeout_def rest_def timer_weight_def Let_def keep
          split: option.splits)
    with rest w show ?thesis by simp
  qed
  then show "((deadline, fire t g), (deadline, g)) \<in> measure (\<lambda>(deadline, g). sum_list (map timer_weight (timers g)))"
    by simp
qed

text \<open>
  What happens to the game: a click on the block with a given key (with the calls of
  \<open>Math.random()\<close> its handlers make), a click on the nugget with a given id, a frame
  after a given time, and the passing of a number of ms.
\<close>

datatype event = ClickBlock string "nat \<Rightarrow> rat" | ClickNugget nat | Frame rat | Wait nat

fun step :: "event \<Rightarrow> game \<Rightarrow> game" where
  "step (ClickBlock k rnd) g =
     (case find (\<lambda>b. bid b = k) (blocks g) of
        None \<Rightarrow> g
      | Some b \<Rightarrow>
          (let g1 = g\<lparr>blocks := map (\<lambda>a. if bid a = k then fst (GroundBlock_handleClick a) else a)
                                   (blocks g)\<rparr>
           in case snd (GroundBlock_handleClick b) of
                None \<Rightarrow> g1
              | Some (p, gold_found) \<Rightarrow> GameScene_handleDig App_handleDig rnd p gold_found g1))"
| "step (ClickNugget i) g =
     (case find (\<lambda>n. nid n = i) (nuggets g) of
        None \<Rightarrow> g
      | Some n \<Rightarrow>
          (let g1 = g\<lparr>nuggets := map (\<lambda>a. if nid a = i then fst (GoldNugget_handleClick a) else a)
                                    (nuggets g)\<rparr>
           in case snd (GoldNugget_handleClick n) of
                None \<Rightarrow> g1
              | Some j \<Rightarrow> snd (setTimeout (OnCollect j (combo g)) 300 g1)))"
| "step (Frame delta) g = g\<lparr>particles := map (DirtParticle_useFrame delta) (particles g)\<rparr>"
| "step (Wait ms) g = run_timers (now g + ms) g"

fun run :: "event list \<Rightarrow> game \<Rightarrow> game" where
  "run [] g = g"
| "run (e # es) g = run es (step e g)"

text \<open>
  The ids of the nuggets in the scene are pairwise distinct and below the counter
  \<open>nuggetIdRef\<close> that issues them.
\<close>

definition nugget_ids_ok :: "game \<Rightarrow> bool" where
  "nugget_ids_ok g =
     (list_all (\<lambda>n. nid n < nuggetIdRef g) (nuggets g) \<and> distinct (map nid (nuggets g)))"

text \<open>
  The timer ids in use: the next id is positive and above every id issued so far, a
  pending timer is the combo timer exactly if \<open>comboTimerRef\<close> holds its id.
\<close>

definition combo_timer_ok :: "game \<Rightarrow> bool" where
  "combo_timer_ok g =
     (0 < timerSeq g
      \<and> (case comboTimerRef g of None \<Rightarrow> True | Some r \<Rightarrow> r < timerSeq g)
      \<and> list_all (\<lambda>t. 0 < tid t \<and> tid t < timerSeq g
                      \<and> (cb t = ResetCombo) = (comboTimerRef g = Some (tid t)))
           (timers g))"

text \<open>
  A series of gold collections: each \<open>(d, c)\<close> stands for a call of \<open>handleGoldCollect\<close>
  (the closure with \<open>combo = c\<close>) made \<open>d\<close> ms after the one before.
\<close>

fun collections :: "(nat \<times> nat) list \<Rightarrow> game \<Rightarrow> game" where
  "collections [] g = g"
| "collections ((d, c) # ds) g =
     collections ds (App_handleGoldCollect c (run_timers (now g + d) g))"


text \<open>
  Three clicks on the block with key \<open>k\<close>, every call of \<open>Math.random()\<close> returning 0.
\<close>

definition dig :: "string \<Rightarrow> event list" where
  "dig k = [ClickBlock k (always 0), ClickBlock k (always 0), ClickBlock k (always 0)]"

text \<open>
  The game in which every call of \<open>Math.random()\<close> has returned 0 (so that every block
  holds gold), after the four surface blocks at \<open>(0,0,0)\<close>, \<open>(1,0,0)\<close>, \<open>(2,0,0)\<close> and
  \<open>(3,0,0)\<close> have been dug out.
\<close>

definition four_nuggets :: game where
  "four_nuggets =
     run (dig ''0-0-0'' @ dig ''1-0-0'' @ dig ''2-0-0'' @ dig ''3-0-0'') (mount (always 0))"

section \<open>Properties of the rounding\<close>

lemma ilog2_bounds:
  assumes "x \<noteq> 0"
  shows "2 powi ilog2 x \<le> \<bar>x\<bar>" and "\<bar>x\<bar> < 2 powi (ilog2 x + 1)"
proof -
  obtain p q where pq: "quotient_of \<bar>x\<bar> = (p, q)"
    by (cases "quotient_of \<bar>x\<bar>")
  have q: "0 < q" using pq by (rule quotient_of_denom_pos)
  have ax: "\<bar>x\<bar> = of_int p / of_int q" using pq by (rule quotient_of_div)
  have p: "0 < p"
  proof (rule ccontr)
    assume "\<not> 0 < p"
    then have "of_int p / (of_int q :: rat) \<le> 0"
      using q by (simp add: divide_le_0_iff)
    with ax assms show False by simp
  qed
  define e where "e = bitlen p - bitlen q"
  have bp: "2 ^ nat (bitlen p - 1) \<le> p" "p < 2 ^ nat (bitlen p)"
    using bitlen_bounds [OF p] by simp_all
  have bq: "2 ^ nat (bitlen q - 1) \<le> q" "q < 2 ^ nat (bitlen q)"
    using bitlen_bounds [OF q] by simp_all
  have p1: "1 \<le> bitlen p" and q1: "1 \<le> bitlen q"
    using p q bitlen_eq_zero_iff [of p] bitlen_eq_zero_iff [of q] bitlen_nonneg [of p] bitlen_nonneg [of q]
    by linarith+
  have rp: "(2::rat) ^ nat (bitlen p - 1) \<le> of_int p" "(of_int p :: rat) < 2 ^ nat (bitlen p)"
    using bp by (metis of_int_le_iff of_int_numeral of_int_power, metis of_int_less_iff of_int_numeral of_int_power)
  have rq: "(2::rat) ^ nat (bitlen q - 1) \<le> of_int q" "(of_int q :: rat) < 2 ^ nat (bitlen q)"
    using bq by (metis of_int_le_iff of_int_numeral of_int_power, metis of_int_less_iff of_int_numeral of_int_power)
  have lo_eq: "(2::rat) powi (e - 1) = 2 ^ nat (bitlen p - 1) / 2 ^ nat (bitlen q)"
  proof -
    have "e - 1 = (bitlen p - 1) - bitlen q"
      by (simp add: e_def)
    then have "(2::rat) powi (e - 1) = 2 powi ((bitlen p - 1) - bitlen q)"
      by (rule arg_cong)
    also have "\<dots> = 2 powi (bitlen p - 1) / 2 powi bitlen q"
      by (simp add: power_int_diff)
    finally show ?thesis using p1 q1 by (simp add: power_int_nonneg_exp)
  qed
  have hi_eq: "(2::rat) powi (e + 1) = 2 ^ nat (bitlen p) / 2 ^ nat (bitlen q - 1)"
  proof -
    have "e + 1 = bitlen p - (bitlen q - 1)"
      by (simp add: e_def)
    then have "(2::rat) powi (e + 1) = 2 powi (bitlen p - (bitlen q - 1))"
      by (rule arg_cong)
    also have "\<dots> = 2 powi bitlen p / 2 powi (bitlen q - 1)"
      by (rule power_int_diff) simp
    finally show ?thesis using p1 q1 by (simp add: power_int_nonneg_exp)
  qed
  have lo: "2 powi (e - 1) \<le> \<bar>x\<bar>"
    unfolding lo_eq ax using rp rq q p
    by (intro frac_le) simp_all
  have hi: "\<bar>x\<bar> < 2 powi (e + 1)"
    unfolding hi_eq ax using rp rq q p
    by (intro frac_less) simp_all
  have il: "ilog2 x = (if 2 powi e \<le> \<bar>x\<bar> then e else e - 1)"
    by (simp add: ilog2_def pq e_def Let_def)
  show "2 powi ilog2 x \<le> \<bar>x\<bar>" using lo by (simp add: il)
  show "\<bar>x\<bar> < 2 powi (ilog2 x + 1)" using hi by (auto simp add: il)
qed


lemma ilog2_less: "x \<noteq> 0 \<Longrightarrow> \<bar>x\<bar> < 2 powi n \<Longrightarrow> ilog2 x < n"
proof (rule ccontr)
  assume x: "x \<noteq> 0" and lt: "\<bar>x\<bar> < 2 powi n" and "\<not> ilog2 x < n"
  then have "n \<le> ilog2 x" by simp
  then have "(2::rat) powi n \<le> 2 powi ilog2 x"
    by (intro power_int_increasing) simp_all
  with ilog2_bounds(1) [OF x] lt show False by linarith
qed


lemma ulp_pos: "0 < ulp x"
  by (simp add: ulp_def zero_less_power_int)





lemma rne_of_int: "rne (of_int k) = k"
  by (simp add: rne_def)






lemma fl_zero: "fl 0 = 0"
  by (simp add: fl_def rne_def)

lemma fl_on_grid: "x = of_int k * ulp x \<Longrightarrow> fl x = x"
proof -
  assume x: "x = of_int k * ulp x"
  have "x / ulp x = of_int k"
    using ulp_pos [of x] x by (metis less_irrefl nonzero_mult_div_cancel_right)
  then show "fl x = x" using x by (simp add: fl_def rne_of_int)
qed



lemma fl_exact:
  assumes k: "\<bar>k\<bar> < 2 ^ 53" and j: "- 1074 \<le> j"
  shows "fl (of_int k * 2 powi j) = of_int k * 2 powi j"
proof (cases "k = 0")
  case True
  then show ?thesis by (simp add: fl_zero)
next
  case False
  define x :: rat where "x = of_int k * 2 powi j"
  have x0: "x \<noteq> 0" using False by (simp add: x_def)
  have "\<bar>x\<bar> = of_int \<bar>k\<bar> * 2 powi j"
    by (simp add: x_def abs_mult)
  also have "\<dots> < 2 ^ 53 * 2 powi j"
  proof -
    have "(of_int \<bar>k\<bar> :: rat) < of_int (2 ^ 53)" using k by (simp only: of_int_less_iff)
    then show ?thesis by (simp add: zero_less_power_int)
  qed
  also have "\<dots> = 2 powi (53 + j)"
    by (simp add: power_int_add)
  finally have "ilog2 x < 53 + j" by (rule ilog2_less [OF x0])
  then have e: "expo x \<le> j + 52" using j by (simp add: expo_def)
  define n where "n = nat (j + 52 - expo x)"
  have "j = int n + (expo x - 52)" using e by (simp add: n_def)
  then have "(2::rat) powi j = 2 powi (int n + (expo x - 52))" by (rule arg_cong)
  also have "\<dots> = 2 powi (int n) * 2 powi (expo x - 52)"
    by (rule power_int_add) simp
  finally have "(2::rat) powi j = of_int (2 ^ n) * ulp x"
    by (simp add: ulp_def)
  then have "x = of_int (k * 2 ^ n) * ulp x"
    by (simp add: x_def)
  then have "fl x = x" by (rule fl_on_grid)
  then show ?thesis by (simp add: x_def)
qed








lemma add_half_exact:
  assumes "\<bar>y\<bar> < 2 ^ 52"
  shows "js_add (of_int y) (1 / 2) = of_int y + 1 / 2"
proof -
  have e: "of_int (2 * y + 1) * 2 powi (- 1) = (of_int y + 1 / 2 :: rat)"
    by (simp add: power_int_minus field_simps)
  have "\<bar>2 * y + 1\<bar> < 2 ^ 53" using assms by simp
  then have "fl (of_int (2 * y + 1) * 2 powi (- 1)) = of_int (2 * y + 1) * 2 powi (- 1)"
    by (rule fl_exact) simp
  then show ?thesis unfolding e js_add_def .
qed


section \<open>Properties of the grid\<close>

lemma cells_length:
  "length [(x, y, z). x \<leftarrow> xs, y \<leftarrow> ys, z \<leftarrow> zs] = length xs * length ys * length (zs :: 'c list)"
proof -
  have inner: "length (concat (map (\<lambda>y. map (\<lambda>z. (x, y, z)) zs) ys)) = length ys * length zs"
    for x :: 'a and ys :: "'b list"
    by (induction ys) simp_all
  show ?thesis
    by (induction xs) (simp_all add: inner add_mult_distrib)
qed

lemma cells_set:
  "set [(x, y, z). x \<leftarrow> xs, y \<leftarrow> ys, z \<leftarrow> zs] = {(x, y, z). x \<in> set xs \<and> y \<in> set ys \<and> z \<in> set zs}"
  by auto

lemma cells_distinct:
  assumes "distinct xs" "distinct ys" "distinct zs"
  shows "distinct [(x, y, z). x \<leftarrow> xs, y \<leftarrow> ys, z \<leftarrow> zs]"
proof -
  have row: "distinct (map (\<lambda>z. (x, y, z)) zs)" for x :: 'a and y :: 'b
    using assms(3) by (simp add: distinct_map inj_on_def)
  have inner: "distinct (concat (map (\<lambda>y. map (\<lambda>z. (x, y, z)) zs) ys))" for x :: 'a
    using assms(2) by (induction ys) (auto simp add: row)
  show ?thesis
    using assms(1) by (induction xs) (auto simp add: inner)
qed

lemma grid_length: "length grid_cells = 486"
  unfolding grid_cells_def cells_length by simp

lemma grid_set:
  "set grid_cells = {(x, y, z). - 4 \<le> x \<and> x \<le> 4 \<and> - 5 \<le> y \<and> y \<le> 0 \<and> - 4 \<le> z \<and> z \<le> 4}"
  unfolding grid_cells_def cells_set by auto

lemma grid_distinct: "distinct grid_cells"
  unfolding grid_cells_def by (intro cells_distinct distinct_upto)

lemma digit_char_eq_iff: "m < 10 \<Longrightarrow> n < 10 \<Longrightarrow> digit_char m = digit_char n \<longleftrightarrow> m = n"
proof -
  assume "m < 10" "n < 10"
  moreover have "distinct ''0123456789''" by simp
  ultimately show ?thesis
    unfolding digit_char_def by (intro nth_eq_iff_index_eq) simp_all
qed

lemma digit_char_not_minus: "n < 10 \<Longrightarrow> digit_char n \<noteq> CHR ''-''"
proof -
  assume "n < 10"
  then have "digit_char n \<in> set ''0123456789''"
    unfolding digit_char_def by (intro nth_mem) simp
  then show ?thesis by auto
qed

lemma digits_small: "n < 10 \<Longrightarrow> digits n = [digit_char n]"
  by (subst digits.simps) simp

lemma js_string_of_digit:
  "- 9 \<le> i \<Longrightarrow> i \<le> 9 \<Longrightarrow>
   js_string_of_int i = (if i < 0 then [CHR ''-'', digit_char (nat (- i))] else [digit_char (nat i)])"
  by (simp add: js_string_of_int_def digits_small)

lemma block_id_inject:
  assumes "- 9 \<le> x" "x \<le> 9" "- 9 \<le> y" "y \<le> 9" "- 9 \<le> z" "z \<le> 9"
    and "- 9 \<le> x'" "x' \<le> 9" "- 9 \<le> y'" "y' \<le> 9" "- 9 \<le> z'" "z' \<le> 9"
    and "block_id (x, y, z) = block_id (x', y', z')"
  shows "(x, y, z) = (x', y', z')"
  using assms
  by (auto simp add: block_id_def js_string_of_digit digit_char_eq_iff digit_char_not_minus
      split: if_splits)

lemma grid_ids_distinct: "distinct (map block_id grid_cells)"
proof -
  have "inj_on block_id (set grid_cells)"
    unfolding grid_set
    by (rule inj_onI) (auto dest!: block_id_inject [rotated -1])
  then show ?thesis
    using grid_distinct by (simp add: distinct_map)
qed


section \<open>Properties of ground blocks\<close>

lemma GroundBlock_clicks_at_3:
  "dugLevel b = 3 \<Longrightarrow> GroundBlock_clicks n b = (b, [])"
  by (induction n) (simp_all add: GroundBlock_handleClick_def)

lemma GroundBlock_clicks_from:
  "dugLevel b \<le> 3 \<Longrightarrow>
   GroundBlock_clicks n b =
     (b\<lparr>dugLevel := min 3 (dugLevel b + n)\<rparr>,
      if dugLevel b < 3 \<and> 3 \<le> dugLevel b + n then [(pos b, hasGold b)] else [])"
proof (induction n arbitrary: b)
  case 0
  then show ?case by simp
next
  case (Suc n)
  show ?case
  proof (cases "dugLevel b < 3")
    case True
    define b1 where "b1 = b\<lparr>dugLevel := dugLevel b + 1\<rparr>"
    have le: "dugLevel b1 \<le> 3" using True by (simp add: b1_def)
    have step: "GroundBlock_handleClick b =
        (b1, if dugLevel b = 2 then Some (pos b, hasGold b) else None)"
      using True by (simp add: GroundBlock_handleClick_def b1_def)
    have ih: "GroundBlock_clicks n b1 =
        (b1\<lparr>dugLevel := min 3 (dugLevel b1 + n)\<rparr>,
         if dugLevel b1 < 3 \<and> 3 \<le> dugLevel b1 + n then [(pos b1, hasGold b1)] else [])"
      by (rule Suc.IH [OF le])
    have unfold: "GroundBlock_clicks (Suc n) b =
        (fst (GroundBlock_clicks n b1),
         (if dugLevel b = 2 then [(pos b, hasGold b)] else []) @ snd (GroundBlock_clicks n b1))"
      by (simp add: step split: prod.splits)
    show ?thesis
      unfolding unfold ih using True by (auto simp add: b1_def min_def)
  next
    case False
    with Suc.prems have "dugLevel b = 3" by simp
    then show ?thesis
      by (simp add: GroundBlock_clicks_at_3 del: GroundBlock_clicks.simps)
  qed
qed

text \<open>
  C1. A click on a block whose \<open>dugLevel\<close> is 3 changes nothing and calls nothing;
  any other click raises \<open>dugLevel\<close> by exactly one and leaves the rest of the block as
  it was, so \<open>dugLevel\<close> never decreases and stays within 0..3; the click calls
  \<open>onDig(position, hasGold)\<close> exactly when it takes \<open>dugLevel\<close> from 2 to 3. Over any
  number \<open>n\<close> of clicks on a fresh block \<open>onDig\<close> is therefore called once in all if
  \<open>n \<ge> 3\<close> (and not before the third click), and from the third click on the block
  renders nothing, whatever clicks follow.
\<close>

theorem GroundBlock_click_contract:
  assumes "dugLevel b \<le> 3"
  shows "(dugLevel b = 3 \<longrightarrow> GroundBlock_handleClick b = (b, None))
       \<and> (dugLevel b < 3 \<longrightarrow>
            fst (GroundBlock_handleClick b) = b\<lparr>dugLevel := dugLevel b + 1\<rparr>)
       \<and> dugLevel b \<le> dugLevel (fst (GroundBlock_handleClick b))
       \<and> dugLevel (fst (GroundBlock_handleClick b)) \<le> 3
       \<and> snd (GroundBlock_handleClick b) =
            (if dugLevel b = 2 \<and> dugLevel (fst (GroundBlock_handleClick b)) = 3
             then Some (pos b, hasGold b) else None)
       \<and> (dugLevel b = 0 \<longrightarrow>
            GroundBlock_clicks n b =
              (b\<lparr>dugLevel := min 3 n\<rparr>, if 3 \<le> n then [(pos b, hasGold b)] else [])
            \<and> (3 \<le> n \<longrightarrow> \<not> GroundBlock_renders (fst (GroundBlock_clicks n b))))"
proof -
  have "dugLevel b = 0 \<Longrightarrow> GroundBlock_clicks n b =
      (b\<lparr>dugLevel := min 3 n\<rparr>, if 3 \<le> n then [(pos b, hasGold b)] else [])"
    using GroundBlock_clicks_from [of b n] by simp
  then show ?thesis
    using assms by (auto simp add: GroundBlock_handleClick_def GroundBlock_renders_def)
qed

theorem GroundBlock_click_contract_witness:
  "GroundBlock_clicks 5 \<lparr>pos = (1, -2, 3), bid = ''1--2-3'', hasGold = True, depth = 2, dugLevel = 0\<rparr>
     = (\<lparr>pos = (1, -2, 3), bid = ''1--2-3'', hasGold = True, depth = 2, dugLevel = 3\<rparr>,
        [((1, -2, 3), True)])
   \<and> \<not> GroundBlock_renders
        (fst (GroundBlock_clicks 5
           \<lparr>pos = (1, -2, 3), bid = ''1--2-3'', hasGold = True, depth = 2, dugLevel = 0\<rparr>))"
proof -
  define b where
    "b = \<lparr>pos = (1, -2, 3), bid = ''1--2-3'', hasGold = True, depth = 2, dugLevel = 0::nat\<rparr>"
  have le: "dugLevel b \<le> 3" and zero: "dugLevel b = 0" and three: "(3::nat) \<le> 5"
    by (simp_all add: b_def)
  from GroundBlock_click_contract [OF le, of 5] zero
  have run: "GroundBlock_clicks 5 b =
        (b\<lparr>dugLevel := min 3 5\<rparr>, if (3::nat) \<le> 5 then [(pos b, hasGold b)] else [])"
    and gone: "(3::nat) \<le> 5 \<longrightarrow> \<not> GroundBlock_renders (fst (GroundBlock_clicks 5 b))"
    by blast+
  from gone three have "\<not> GroundBlock_renders (fst (GroundBlock_clicks 5 b))"
    by blast
  moreover from run have "GroundBlock_clicks 5 b = (b\<lparr>dugLevel := 3\<rparr>, [(pos b, hasGold b)])"
    by simp
  ultimately show ?thesis by (simp add: b_def)
qed

section \<open>Excavation\<close>

lemma handleDig_unfold:
  "GameScene_handleDig App_handleDig rnd p gold_found g =
     g\<lparr>digs := digs g + 1,
       particleIdRef := particleIdRef g + 8,
       particles := particles g @ map (new_particle rnd p (particleIdRef g)) [0..<8],
       blocks := filter (\<lambda>b. bid b \<noteq> block_id p) (blocks g),
       nuggets := (if gold_found then nuggets g @ [new_nugget p (nuggetIdRef g)] else nuggets g),
       nuggetIdRef := (if gold_found then nuggetIdRef g + 1 else nuggetIdRef g)\<rparr>"
  by (simp add: GameScene_handleDig_def App_handleDig_def Let_def)


lemma always_apply: "always r k = r"
  by (simp add: always_def)

lemma mount_fields:
  "gold (mount rnd) = 0" "digs (mount rnd) = 0" "combo (mount rnd) = 0"
  "comboTimerRef (mount rnd) = None" "blocks (mount rnd) = init_blocks rnd"
  "nuggets (mount rnd) = []" "particles (mount rnd) = []" "nuggetIdRef (mount rnd) = 0"
  "particleIdRef (mount rnd) = 0" "now (mount rnd) = 0" "timers (mount rnd) = []"
  "timerSeq (mount rnd) = 1"
  by (simp_all add: mount_def)





section \<open>Invariants of the handlers and of the timers\<close>

declare run_timers.simps [simp del]

lemma run_timers_invariant:
  assumes fire: "\<And>t g. I g \<Longrightarrow> I (fire t g)"
    and tick: "\<And>g n. I g \<Longrightarrow> I (g\<lparr>now := n\<rparr>)"
    and "I g"
  shows "I (run_timers deadline g)"
  using \<open>I g\<close>
proof (induction deadline g rule: run_timers.induct)
  case (1 deadline g)
  show ?case
  proof (cases "next_timer deadline g")
    case None
    then show ?thesis
      using tick [OF "1.prems"] by (simp add: run_timers.simps [of deadline g])
  next
    case (Some t)
    then show ?thesis
      using "1.IH" [OF Some fire [OF "1.prems"]] by (simp add: run_timers.simps [of deadline g])
  qed
qed

lemma run_invariant:
  assumes "\<And>e g. I g \<Longrightarrow> I (step e g)" and "I g"
  shows "I (run es g)"
  using \<open>I g\<close> by (induction es arbitrary: g) (simp_all add: assms(1))

lemma handleGoldCollect_fields:
  "blocks (App_handleGoldCollect c g) = blocks g"
  "nuggets (App_handleGoldCollect c g) = nuggets g"
  "particles (App_handleGoldCollect c g) = particles g"
  "digs (App_handleGoldCollect c g) = digs g"
  "nuggetIdRef (App_handleGoldCollect c g) = nuggetIdRef g"
  "particleIdRef (App_handleGoldCollect c g) = particleIdRef g"
  "now (App_handleGoldCollect c g) = now g"
  "gold (App_handleGoldCollect c g) = gold g + (c div 3 + 1)"
  "combo (App_handleGoldCollect c g) = combo g + 1"
  "comboTimerRef (App_handleGoldCollect c g) = Some (timerSeq g)"
  "timerSeq (App_handleGoldCollect c g) = timerSeq g + 1"
  by (simp_all add: App_handleGoldCollect_def setTimeout_def clearTimeout_def Let_def
      split: option.splits)

lemma handleCollectGold_fields:
  "blocks (GameScene_handleCollectGold (App_handleGoldCollect c) i g) = blocks g"
  "nuggets (GameScene_handleCollectGold (App_handleGoldCollect c) i g) =
     filter (\<lambda>n. nid n \<noteq> i) (nuggets g)"
  "particles (GameScene_handleCollectGold (App_handleGoldCollect c) i g) = particles g"
  "digs (GameScene_handleCollectGold (App_handleGoldCollect c) i g) = digs g"
  "nuggetIdRef (GameScene_handleCollectGold (App_handleGoldCollect c) i g) = nuggetIdRef g"
  "particleIdRef (GameScene_handleCollectGold (App_handleGoldCollect c) i g) = particleIdRef g"
  "now (GameScene_handleCollectGold (App_handleGoldCollect c) i g) = now g"
  "gold (GameScene_handleCollectGold (App_handleGoldCollect c) i g) = gold g + (c div 3 + 1)"
  "combo (GameScene_handleCollectGold (App_handleGoldCollect c) i g) = combo g + 1"
  "comboTimerRef (GameScene_handleCollectGold (App_handleGoldCollect c) i g) = Some (timerSeq g)"
  "timerSeq (GameScene_handleCollectGold (App_handleGoldCollect c) i g) = timerSeq g + 1"
  by (simp_all add: GameScene_handleCollectGold_def handleGoldCollect_fields)

lemma fire_fields:
  "blocks (fire t g) = blocks g"
  "particles (fire t g) = particles g"
  "digs (fire t g) = digs g"
  "nuggetIdRef (fire t g) = nuggetIdRef g"
  "particleIdRef (fire t g) = particleIdRef g"
  "nuggets (fire t g) =
     (case cb t of ResetCombo \<Rightarrow> nuggets g | OnCollect i c \<Rightarrow> filter (\<lambda>n. nid n \<noteq> i) (nuggets g))"
  by (cases "cb t"; simp add: fire_def handleCollectGold_fields)+

lemma run_timers_fields:
  "blocks (run_timers deadline g) = blocks g"
  "particles (run_timers deadline g) = particles g"
  "digs (run_timers deadline g) = digs g"
  "nuggetIdRef (run_timers deadline g) = nuggetIdRef g"
  "particleIdRef (run_timers deadline g) = particleIdRef g"
proof -
  show "blocks (run_timers deadline g) = blocks g"
    by (rule run_timers_invariant [where I = "\<lambda>h. blocks h = blocks g"]) (simp_all add: fire_fields)
  show "particles (run_timers deadline g) = particles g"
    by (rule run_timers_invariant [where I = "\<lambda>h. particles h = particles g"])
      (simp_all add: fire_fields)
  show "digs (run_timers deadline g) = digs g"
    by (rule run_timers_invariant [where I = "\<lambda>h. digs h = digs g"]) (simp_all add: fire_fields)
  show "nuggetIdRef (run_timers deadline g) = nuggetIdRef g"
    by (rule run_timers_invariant [where I = "\<lambda>h. nuggetIdRef h = nuggetIdRef g"])
      (simp_all add: fire_fields)
  show "particleIdRef (run_timers deadline g) = particleIdRef g"
    by (rule run_timers_invariant [where I = "\<lambda>h. particleIdRef h = particleIdRef g"])
      (simp_all add: fire_fields)
qed

section \<open>The grid initialisation\<close>

lemma init_blocks_length: "length (init_blocks rnd) = 486"
  by (simp add: init_blocks_def grid_length)

lemma init_blocks_nth:
  "k < 486 \<Longrightarrow> init_blocks rnd ! k = new_block (rnd k) (grid_cells ! k)"
  by (simp add: init_blocks_def grid_length nth_enumerate_eq)

lemma new_block_fields:
  "pos (new_block r p) = p" "bid (new_block r p) = block_id p" "dugLevel (new_block r p) = 0"
  "depth (new_block r p) = - fst (snd p)" "hasGold (new_block r p) = (r < goldChance (- fst (snd p)))"
  by (cases p; simp add: new_block_def)+

lemma init_blocks_pos: "map pos (init_blocks rnd) = grid_cells"
  by (rule nth_equalityI) (simp_all add: init_blocks_length grid_length init_blocks_nth new_block_fields)

lemma init_blocks_bid: "map bid (init_blocks rnd) = map block_id grid_cells"
  by (rule nth_equalityI) (simp_all add: init_blocks_length grid_length init_blocks_nth new_block_fields)

lemma init_blocks_fresh: "b \<in> set (init_blocks rnd) \<Longrightarrow> dugLevel b = 0"
  by (auto simp add: in_set_conv_nth init_blocks_length init_blocks_nth new_block_fields)

lemma handleClick_keeps:
  "fst (GroundBlock_handleClick a)\<lparr>dugLevel := 0\<rparr> = a\<lparr>dugLevel := 0\<rparr>"
  "bid (fst (GroundBlock_handleClick a)) = bid a"
  by (simp_all add: GroundBlock_handleClick_def)

lemma step_blocks_origin:
  assumes "\<forall>b\<in>set (blocks g). b\<lparr>dugLevel := 0\<rparr> \<in> S"
  shows "\<forall>b\<in>set (blocks (step e g)). b\<lparr>dugLevel := 0\<rparr> \<in> S"
proof (cases e)
  case (ClickBlock k rnd)
  have m: "\<forall>b\<in>set (map (\<lambda>a. if bid a = k then fst (GroundBlock_handleClick a) else a) (blocks g)).
      b\<lparr>dugLevel := 0\<rparr> \<in> S"
    using assms by (auto simp add: handleClick_keeps)
  show ?thesis
    using assms m
    by (auto simp add: ClickBlock handleDig_unfold Let_def split: option.splits)
next
  case (ClickNugget i)
  then show ?thesis
    using assms by (auto simp add: setTimeout_def Let_def split: option.splits)
next
  case (Frame delta)
  then show ?thesis using assms by simp
next
  case (Wait ms)
  then show ?thesis using assms by (simp add: run_timers_fields)
qed

lemma run_blocks_origin:
  "\<forall>b\<in>set (blocks (run es (mount rnd))). b\<lparr>dugLevel := 0\<rparr> \<in> set (init_blocks rnd)"
proof (rule run_invariant [where I = "\<lambda>g. \<forall>b\<in>set (blocks g). b\<lparr>dugLevel := 0\<rparr> \<in> set (init_blocks rnd)"])
  show "\<forall>b\<in>set (blocks (mount rnd)). b\<lparr>dugLevel := 0\<rparr> \<in> set (init_blocks rnd)"
  proof
    fix b
    assume b: "b \<in> set (blocks (mount rnd))"
    then have "dugLevel b = 0" by (simp add: mount_fields init_blocks_fresh)
    then have "b\<lparr>dugLevel := 0\<rparr> = b" by simp
    with b show "b\<lparr>dugLevel := 0\<rparr> \<in> set (init_blocks rnd)" by (simp add: mount_fields)
  qed
qed (rule step_blocks_origin)

lemma goldChance_table:
  "goldChance 0 = 5764607523034235 / 288230376151711744"
  "goldChance 1 = 3602879701896397 / 72057594037927936"
  "goldChance 2 = 5764607523034235 / 72057594037927936"
  "goldChance 3 = 7926335344172073 / 72057594037927936"
  "goldChance 4 = 5044031582654955 / 36028797018963968"
  "goldChance 5 = 3062447746611937 / 18014398509481984"
  by code_simp+

text \<open>
  C3. The grid initialisation, which runs when the scene is mounted and at no other
  event, produces exactly 486 blocks, one for every integer triple \<open>(x, y, z)\<close> with
  \<open>-4 \<le> x \<le> 4\<close>, \<open>-5 \<le> y \<le> 0\<close>, \<open>-4 \<le> z \<le> 4\<close> and each triple once; the ids, of the
  form \<open>x-y-z\<close>, are pairwise distinct; the block of iteration \<open>k\<close> has \<open>depth = -y\<close> and
  \<open>hasGold\<close> decided by the \<open>k\<close>-th call of \<open>Math.random()\<close> alone, as
  \<open>Math.random() < depth * 0.03 + 0.02\<close>, where the threshold is the Number that the
  expression evaluates to: its value at each of the depths 0 to 5 is given, and it is
  within \<open>2^-55\<close> of the exact \<open>depth * 0.03 + 0.02\<close>; and whatever events follow, every
  block of the scene is one of these blocks with at most its \<open>dugLevel\<close> changed, so
  \<open>hasGold\<close> is never computed again.
\<close>

theorem grid_initialisation:
  "blocks (mount rnd) = init_blocks rnd
   \<and> length (init_blocks rnd) = 486
   \<and> map pos (init_blocks rnd) = grid_cells
   \<and> distinct grid_cells
   \<and> set grid_cells = {(x, y, z). - 4 \<le> x \<and> x \<le> 4 \<and> - 5 \<le> y \<and> y \<le> 0 \<and> - 4 \<le> z \<and> z \<le> 4}
   \<and> distinct (map bid (init_blocks rnd))
   \<and> (\<forall>k<486. case grid_cells ! k of (x, y, z) \<Rightarrow>
         init_blocks rnd ! k =
           \<lparr>pos = (x, y, z),
            bid = js_string_of_int x @ ''-'' @ js_string_of_int y @ ''-'' @ js_string_of_int z,
            hasGold = (rnd k < goldChance (- y)), depth = - y, dugLevel = 0\<rparr>)
   \<and> (\<forall>d. goldChance d = js_add (js_mul (of_int d) (fl (3 / 100))) (fl (2 / 100)))
   \<and> map goldChance [0, 1, 2, 3, 4, 5] =
       [5764607523034235 / 2 ^ 58, 3602879701896397 / 2 ^ 56, 5764607523034235 / 2 ^ 56,
        7926335344172073 / 2 ^ 56, 5044031582654955 / 2 ^ 55, 3062447746611937 / 2 ^ 54]
   \<and> list_all (\<lambda>d. \<bar>goldChance d - (of_int d * (3 / 100) + 2 / 100)\<bar> < 2 powi (- 55))
       [0, 1, 2, 3, 4, 5]
   \<and> (\<forall>es. \<forall>b\<in>set (blocks (run es (mount rnd))). b\<lparr>dugLevel := 0\<rparr> \<in> set (init_blocks rnd))"
proof -
  have 1: "\<forall>k<486. case grid_cells ! k of (x, y, z) \<Rightarrow>
         init_blocks rnd ! k =
           \<lparr>pos = (x, y, z),
            bid = js_string_of_int x @ ''-'' @ js_string_of_int y @ ''-'' @ js_string_of_int z,
            hasGold = (rnd k < goldChance (- y)), depth = - y, dugLevel = 0\<rparr>"
    by (simp add: init_blocks_nth new_block_def block_id_def split: prod.splits)
  have 2: "\<forall>d. goldChance d = js_add (js_mul (of_int d) (fl (3 / 100))) (fl (2 / 100))"
    by (simp add: goldChance_def)
  have 3: "map goldChance [0, 1, 2, 3, 4, 5] =
       [5764607523034235 / 2 ^ 58, 3602879701896397 / 2 ^ 56, 5764607523034235 / 2 ^ 56,
        7926335344172073 / 2 ^ 56, 5044031582654955 / 2 ^ 55, 3062447746611937 / 2 ^ 54]"
    by (simp add: goldChance_table)
  have 4: "list_all (\<lambda>d. \<bar>goldChance d - (of_int d * (3 / 100) + 2 / 100)\<bar> < 2 powi (- 55))
       [0, 1, 2, 3, 4, 5]"
    by (simp add: goldChance_table power_int_minus)
  have 5: "blocks (mount rnd) = init_blocks rnd
   \<and> length (init_blocks rnd) = 486
   \<and> map pos (init_blocks rnd) = grid_cells
   \<and> distinct grid_cells
   \<and> set grid_cells = {(x, y, z). - 4 \<le> x \<and> x \<le> 4 \<and> - 5 \<le> y \<and> y \<le> 0 \<and> - 4 \<le> z \<and> z \<le> 4}
   \<and> distinct (map bid (init_blocks rnd))"
    by (simp add: mount_fields init_blocks_length init_blocks_pos init_blocks_bid grid_distinct
        grid_set grid_ids_distinct)
  have 6: "\<forall>es. \<forall>b\<in>set (blocks (run es (mount rnd))). b\<lparr>dugLevel := 0\<rparr> \<in> set (init_blocks rnd)"
    using run_blocks_origin [of _ rnd] by blast
  from 1 2 3 4 5 6 show ?thesis by blast
qed

theorem grid_initialisation_witness:
  "length (init_blocks (always (1 / 8))) = 486
   \<and> init_blocks (always (1 / 8)) ! 0 =
       \<lparr>pos = (- 4, - 5, - 4), bid = ''-4--5--4'', hasGold = True, depth = 5, dugLevel = 0\<rparr>
   \<and> init_blocks (always (1 / 8)) ! 45 =
       \<lparr>pos = (- 4, 0, - 4), bid = ''-4-0--4'', hasGold = False, depth = 0, dugLevel = 0\<rparr>
   \<and> init_blocks (always (1 / 8)) ! 0 \<in> set (init_blocks (always (1 / 8)))"
proof -
  have c: "grid_cells ! 0 = (- 4, - 5, - 4)" "grid_cells ! 45 = (- 4, 0, - 4)"
    by code_simp+
  have s: "js_string_of_int (- 4) = ''-4''" "js_string_of_int (- 5) = ''-5''"
    "js_string_of_int 0 = ''0''"
    by (simp_all add: js_string_of_digit digit_char_def)
  note G = grid_initialisation [of "always (1 / 8)"]
  have len: "length (init_blocks (always (1 / 8))) = 486"
    using G by - (elim conjE, assumption)
  have nth: "\<forall>k<486. case grid_cells ! k of (x, y, z) \<Rightarrow>
         init_blocks (always (1 / 8)) ! k =
           \<lparr>pos = (x, y, z),
            bid = js_string_of_int x @ ''-'' @ js_string_of_int y @ ''-'' @ js_string_of_int z,
            hasGold = (always (1 / 8) k < goldChance (- y)), depth = - y, dugLevel = 0\<rparr>"
    using G by - (elim conjE, assumption)
  have tab: "map goldChance [0, 1, 2, 3, 4, 5] =
       [5764607523034235 / 2 ^ 58, 3602879701896397 / 2 ^ 56, 5764607523034235 / 2 ^ 56,
        7926335344172073 / 2 ^ 56, 5044031582654955 / 2 ^ 55, 3062447746611937 / 2 ^ 54]"
    using G by - (elim conjE, assumption)
  have orig: "\<forall>es. \<forall>b\<in>set (blocks (run es (mount (always (1 / 8))))).
         b\<lparr>dugLevel := 0\<rparr> \<in> set (init_blocks (always (1 / 8)))"
    using G by - (elim conjE, assumption)
  from tab have t: "goldChance 0 = 5764607523034235 / 2 ^ 58"
    "goldChance 5 = 3062447746611937 / 2 ^ 54"
    by simp_all
  from nth have "case grid_cells ! 0 of (x, y, z) \<Rightarrow>
         init_blocks (always (1 / 8)) ! 0 =
           \<lparr>pos = (x, y, z),
            bid = js_string_of_int x @ ''-'' @ js_string_of_int y @ ''-'' @ js_string_of_int z,
            hasGold = (always (1 / 8) 0 < goldChance (- y)), depth = - y, dugLevel = 0\<rparr>"
    by simp
  then have first: "init_blocks (always (1 / 8)) ! 0 =
       \<lparr>pos = (- 4, - 5, - 4), bid = ''-4--5--4'', hasGold = True, depth = 5, dugLevel = 0\<rparr>"
    using c s by (simp add: always_apply t)
  from nth have "case grid_cells ! 45 of (x, y, z) \<Rightarrow>
         init_blocks (always (1 / 8)) ! 45 =
           \<lparr>pos = (x, y, z),
            bid = js_string_of_int x @ ''-'' @ js_string_of_int y @ ''-'' @ js_string_of_int z,
            hasGold = (always (1 / 8) 45 < goldChance (- y)), depth = - y, dugLevel = 0\<rparr>"
    by simp
  then have surf: "init_blocks (always (1 / 8)) ! 45 =
       \<lparr>pos = (- 4, 0, - 4), bid = ''-4-0--4'', hasGold = False, depth = 0, dugLevel = 0\<rparr>"
    using c s by (simp add: always_apply t)
  have "init_blocks (always (1 / 8)) ! 0 \<in> set (blocks (run [] (mount (always (1 / 8)))))"
    using len by (simp add: mount_fields)
  with orig have "(init_blocks (always (1 / 8)) ! 0)\<lparr>dugLevel := 0\<rparr> \<in> set (init_blocks (always (1 / 8)))"
    by blast
  then have "init_blocks (always (1 / 8)) ! 0 \<in> set (init_blocks (always (1 / 8)))"
    by (simp add: first)
  with len first surf show ?thesis by simp
qed


section \<open>Collecting a nugget\<close>

lemma handleCollectGold_unfold:
  "GameScene_handleCollectGold (App_handleGoldCollect c) i g =
     g\<lparr>nuggets := filter (\<lambda>n. nid n \<noteq> i) (nuggets g),
       gold := gold g + (c div 3 + 1),
       combo := combo g + 1,
       timers :=
         (case comboTimerRef g of
            None \<Rightarrow> timers g
          | Some t \<Rightarrow> if t \<noteq> 0 then filter (\<lambda>u. tid u \<noteq> t) (timers g) else timers g)
         @ [\<lparr>tid = timerSeq g, due = now g + 2000, cb = ResetCombo\<rparr>],
       timerSeq := timerSeq g + 1,
       comboTimerRef := Some (timerSeq g)\<rparr>"
  by (simp add: GameScene_handleCollectGold_def App_handleGoldCollect_def setTimeout_def
      clearTimeout_def Let_def split: option.splits)

section \<open>Nugget ids\<close>

lemma nugget_click_keeps_id: "nid (fst (GoldNugget_handleClick a)) = nid a"
  by (simp add: GoldNugget_handleClick_def)

lemma nugget_click_ids:
  "nid \<circ> (\<lambda>a. if nid a = i then fst (GoldNugget_handleClick a) else a) = nid"
  by (auto simp add: fun_eq_iff nugget_click_keeps_id)

lemma step_nuggetIdRef_mono: "nuggetIdRef g \<le> nuggetIdRef (step e g)"
proof (cases e)
  case (ClickBlock k rnd)
  then show ?thesis
    by (simp add: handleDig_unfold Let_def split: option.splits prod.splits)
next
  case (ClickNugget i)
  then show ?thesis by (simp add: setTimeout_def Let_def split: option.splits)
next
  case (Frame delta)
  then show ?thesis by simp
next
  case (Wait ms)
  then show ?thesis by (simp add: run_timers_fields)
qed

lemma run_nuggetIdRef_mono: "nuggetIdRef g \<le> nuggetIdRef (run es g)"
proof (induction es arbitrary: g)
  case Nil
  then show ?case by simp
next
  case (Cons e es)
  have "nuggetIdRef g \<le> nuggetIdRef (step e g)" by (rule step_nuggetIdRef_mono)
  also have "\<dots> \<le> nuggetIdRef (run es (step e g))" by (rule Cons.IH)
  finally show ?case by simp
qed

lemma filter_nugget_ids_ok:
  "nugget_ids_ok g \<Longrightarrow> nuggetIdRef h = nuggetIdRef g \<Longrightarrow> nuggets h = filter P (nuggets g) \<Longrightarrow>
   nugget_ids_ok h"
  by (auto simp add: nugget_ids_ok_def list_all_iff distinct_map_filter)

lemma fire_nugget_ids_ok: "nugget_ids_ok g \<Longrightarrow> nugget_ids_ok (fire t g)"
proof (cases "cb t")
  case ResetCombo
  then show "nugget_ids_ok g \<Longrightarrow> nugget_ids_ok (fire t g)"
    by (simp add: nugget_ids_ok_def fire_fields)
next
  case (OnCollect i c)
  then show "nugget_ids_ok g \<Longrightarrow> nugget_ids_ok (fire t g)"
    by (rule_tac filter_nugget_ids_ok [where P = "\<lambda>n. nid n \<noteq> i"]) (simp_all add: fire_fields)
qed

lemma step_nugget_ids_ok:
  assumes "nugget_ids_ok g"
  shows "nugget_ids_ok (step e g)"
proof (cases e)
  case (ClickBlock k rnd)
  have "nugget_ids_ok (g\<lparr>blocks := bs\<rparr>)" for bs
    using assms by (simp add: nugget_ids_ok_def)
  moreover have "nugget_ids_ok (GameScene_handleDig App_handleDig rnd p gf h)"
    if "nugget_ids_ok h" for p gf h
    using that by (cases p) (auto simp add: nugget_ids_ok_def handleDig_unfold new_nugget_def
        list_all_iff)
  ultimately show ?thesis
    using assms by (simp add: ClickBlock Let_def split: option.splits prod.splits)
next
  case (ClickNugget i)
  have "nugget_ids_ok (g\<lparr>nuggets := map (\<lambda>a. if nid a = i then fst (GoldNugget_handleClick a) else a)
      (nuggets g)\<rparr>)"
    using assms
    by (auto simp add: nugget_ids_ok_def nugget_click_ids nugget_click_keeps_id list_all_iff)
  then show ?thesis
    using assms
    by (simp add: ClickNugget setTimeout_def Let_def nugget_ids_ok_def split: option.splits)
next
  case (Frame delta)
  then show ?thesis using assms by (simp add: nugget_ids_ok_def)
next
  case (Wait ms)
  show ?thesis
    unfolding Wait step.simps
    by (rule run_timers_invariant [where I = nugget_ids_ok])
      (simp_all add: fire_nugget_ids_ok assms, simp add: nugget_ids_ok_def)
qed

lemma run_nugget_ids_ok: "nugget_ids_ok g \<Longrightarrow> nugget_ids_ok (run es g)"
  by (rule run_invariant [where I = nugget_ids_ok]) (simp_all add: step_nugget_ids_ok)

lemma mount_nugget_ids_ok: "nugget_ids_ok (mount rnd)"
  by (simp add: nugget_ids_ok_def mount_fields)

text \<open>
  C5. An excavation with \<open>hasGold = true\<close> at a block position \<open>(x, y, z)\<close> (any with
  \<open>|y| < 2^52\<close>, which covers the grid) appends exactly one nugget, at \<open>(x, y + 0.5, z)\<close>,
  whose id is the value of the counter \<open>nuggetIdRef\<close>, and increments the counter. The
  counter never decreases, so every id issued later is greater; and in every state the
  game reaches, the ids of the nuggets are pairwise distinct and below the counter.
\<close>

theorem gold_spawns_nugget:
  assumes "\<bar>y\<bar> < 2 ^ 52"
  shows "nuggets (GameScene_handleDig App_handleDig rnd (x, y, z) True g) =
           nuggets g @ [\<lparr>npos = (of_int x, of_int y + 1 / 2, of_int z), nid = nuggetIdRef g,
                         collected = False\<rparr>]
    \<and> nuggetIdRef (GameScene_handleDig App_handleDig rnd (x, y, z) True g) = nuggetIdRef g + 1
    \<and> (\<forall>es. nuggetIdRef g <
          nuggetIdRef (run es (GameScene_handleDig App_handleDig rnd (x, y, z) True g)))
    \<and> (nugget_ids_ok g \<longrightarrow>
         (\<forall>es. nugget_ids_ok (run es (GameScene_handleDig App_handleDig rnd (x, y, z) True g))))
    \<and> (\<forall>es rnd0. nugget_ids_ok (run es (mount rnd0)))"
proof -
  define g' where "g' = GameScene_handleDig App_handleDig rnd (x, y, z) True g"
  have n: "nuggets g' = nuggets g @ [\<lparr>npos = (of_int x, of_int y + 1 / 2, of_int z),
      nid = nuggetIdRef g, collected = False\<rparr>]"
    by (simp add: g'_def handleDig_unfold new_nugget_def add_half_exact [OF assms])
  have c: "nuggetIdRef g' = nuggetIdRef g + 1"
    by (simp add: g'_def handleDig_unfold)
  have m: "nuggetIdRef g < nuggetIdRef (run es g')" for es
    using run_nuggetIdRef_mono [of g' es] c by simp
  have k: "nugget_ids_ok g'" if "nugget_ids_ok g"
    using that n c by (auto simp add: nugget_ids_ok_def list_all_iff)
  show ?thesis
    unfolding g'_def [symmetric]
    using n c m k by (simp add: run_nugget_ids_ok mount_nugget_ids_ok)
qed

theorem gold_spawns_nugget_witness:
  "nuggets (GameScene_handleDig App_handleDig (always 0) (0, 0, 0) True (mount (always 0))) =
     [\<lparr>npos = (0, 1 / 2, 0), nid = 0, collected = False\<rparr>]
   \<and> nuggetIdRef (GameScene_handleDig App_handleDig (always 0) (0, 0, 0) True
        (mount (always 0))) = 1
   \<and> nugget_ids_ok (run [ClickNugget 0]
        (GameScene_handleDig App_handleDig (always 0) (0, 0, 0) True (mount (always 0))))"
proof -
  define g where "g = mount (always 0)"
  define g' where "g' = GameScene_handleDig App_handleDig (always 0) (0, 0, 0) True g"
  have y: "\<bar>0::int\<bar> < 2 ^ 52" by simp
  have ok: "nugget_ids_ok g" by (simp add: g_def nugget_ids_ok_def mount_fields)
  note G = gold_spawns_nugget [OF y, of "always 0" 0 0 g, folded g'_def]
  have n: "nuggets g' = nuggets g @ [\<lparr>npos = (of_int 0, of_int 0 + 1 / 2, of_int 0),
      nid = nuggetIdRef g, collected = False\<rparr>]"
    using G by - (elim conjE, assumption)
  have c: "nuggetIdRef g' = nuggetIdRef g + 1"
    using G by - (elim conjE, assumption)
  have "nugget_ids_ok g \<longrightarrow> (\<forall>es. nugget_ids_ok (run es g'))"
    using G by - (elim conjE, assumption)
  with ok have k: "nugget_ids_ok (run [ClickNugget 0] g')" by blast
  have "nuggets g' = [\<lparr>npos = (0, 1 / 2, 0), nid = 0, collected = False\<rparr>]"
    using n by (simp add: g_def mount_fields)
  moreover have "nuggetIdRef g' = 1" using c by (simp add: g_def mount_fields)
  ultimately show ?thesis using k unfolding g'_def g_def by blast
qed

section \<open>Clicking a nugget\<close>

lemma filter_by_id:
  "distinct (map f xs) \<Longrightarrow> x \<in> set xs \<Longrightarrow> filter (\<lambda>a. f a \<noteq> f x) xs = remove1 x xs"
proof (induction xs)
  case Nil
  then show ?case by simp
next
  case (Cons a xs)
  show ?case
  proof (cases "a = x")
    case True
    have "filter (\<lambda>a. f a \<noteq> f x) xs = xs"
      using Cons.prems(1) True by (auto simp add: filter_id_conv intro: rev_image_eqI)
    with True show ?thesis by simp
  next
    case False
    with Cons show ?thesis by auto
  qed
qed

lemma map_by_id:
  "distinct (map f xs) \<Longrightarrow> x \<in> set xs \<Longrightarrow>
   map (\<lambda>a. if f a = f x then u a else a) xs = map (\<lambda>a. if a = x then u x else a) xs"
  by (rule map_cong) (auto simp add: distinct_map inj_on_def)

lemma find_by_id:
  "distinct (map f xs) \<Longrightarrow> x \<in> set xs \<Longrightarrow> find (\<lambda>a. f a = f x) xs = Some x"
proof (induction xs)
  case Nil
  then show ?case by simp
next
  case (Cons a xs)
  then show ?case by (cases "a = x") (auto simp add: rev_image_eqI)
qed

lemma next_timer_single:
  "timers g = [t] \<Longrightarrow> next_timer deadline g = (if due t \<le> deadline then Some t else None)"
  by (simp add: next_timer_def)


lemma run_timers_none:
  "next_timer deadline g = None \<Longrightarrow> run_timers deadline g = g\<lparr>now := max (now g) deadline\<rparr>"
  by (simp add: run_timers.simps [of deadline g])

lemma run_timers_some:
  "next_timer deadline g = Some t \<Longrightarrow> run_timers deadline g = run_timers deadline (fire t g)"
  by (simp add: run_timers.simps [of deadline g])

lemma nugget_click_and_collect:
  assumes ok: "nugget_ids_ok g" and n: "n \<in> set (nuggets g)"
  shows "collected (fst (GoldNugget_handleClick n))
    \<and> (collected n \<longrightarrow>
          GoldNugget_handleClick n = (n, None) \<and> step (ClickNugget (nid n)) g = g)
    \<and> (\<not> collected n \<longrightarrow>
          GoldNugget_handleClick n = (n\<lparr>collected := True\<rparr>, Some (nid n))
        \<and> step (ClickNugget (nid n)) g =
            g\<lparr>nuggets := map (\<lambda>a. if a = n then n\<lparr>collected := True\<rparr> else a) (nuggets g),
              timers := timers g @ [\<lparr>tid = timerSeq g, due = now g + 300,
                                     cb = OnCollect (nid n) (combo g)\<rparr>],
              timerSeq := timerSeq g + 1\<rparr>
        \<and> step (ClickNugget (nid n)) (step (ClickNugget (nid n)) g) =
            step (ClickNugget (nid n)) g)
    \<and> length (nuggets (run_callback (OnCollect (nid n) c) g)) + 1 = length (nuggets g)
    \<and> set (nuggets (run_callback (OnCollect (nid n) c) g)) = set (nuggets g) - {n}
    \<and> gold (run_callback (OnCollect (nid n) c) g) = gold g + (c div 3 + 1)
    \<and> combo (run_callback (OnCollect (nid n) c) g) = combo g + 1"
proof -
  from ok have d: "distinct (map nid (nuggets g))"
    by (simp add: nugget_ids_ok_def)
  have f: "find (\<lambda>a. nid a = nid n) (nuggets g) = Some n"
    using d n by (rule find_by_id)
  have m: "map (\<lambda>a. if nid a = nid n then u a else a) (nuggets g) =
      map (\<lambda>a. if a = n then u n else a) (nuggets g)" for u
    using d n by (rule map_by_id)
  have idle: "step (ClickNugget (nid n)) g = g" if "collected n"
  proof -
    have "map (\<lambda>a. if a = n then n else a) (nuggets g) = nuggets g"
      by (induction "nuggets g") (auto simp add: map_idI)
    then show ?thesis
      using that by (simp add: f m GoldNugget_handleClick_def cong: if_cong)
  qed
  have click: "step (ClickNugget (nid n)) g =
            g\<lparr>nuggets := map (\<lambda>a. if a = n then n\<lparr>collected := True\<rparr> else a) (nuggets g),
              timers := timers g @ [\<lparr>tid = timerSeq g, due = now g + 300,
                                     cb = OnCollect (nid n) (combo g)\<rparr>],
              timerSeq := timerSeq g + 1\<rparr>" (is "_ = ?h") if "\<not> collected n"
    using that by (simp add: f m GoldNugget_handleClick_def setTimeout_def cong: if_cong)
  have again: "step (ClickNugget (nid n)) (step (ClickNugget (nid n)) g) =
      step (ClickNugget (nid n)) g" if nc: "\<not> collected n"
  proof -
    define h where "h = step (ClickNugget (nid n)) g"
    have hn: "nuggets h = map (\<lambda>a. if a = n then n\<lparr>collected := True\<rparr> else a) (nuggets g)"
      unfolding h_def click [OF nc] by simp
    have "map nid (nuggets h) = map nid (nuggets g)"
      unfolding hn by (induction "nuggets g") auto
    then have dh: "distinct (map nid (nuggets h))" using d by simp
    have mem: "n\<lparr>collected := True\<rparr> \<in> set (nuggets h)"
      unfolding hn using n by auto
    have fh: "find (\<lambda>a. nid a = nid n) (nuggets h) = Some (n\<lparr>collected := True\<rparr>)"
      using find_by_id [OF dh mem] by simp
    have mh: "map (\<lambda>a. if nid a = nid n then fst (GoldNugget_handleClick a) else a) (nuggets h) =
        nuggets h"
      using map_by_id [OF dh mem, of "\<lambda>a. fst (GoldNugget_handleClick a)"]
      by (simp add: GoldNugget_handleClick_def map_idI cong: if_cong)
    have "step (ClickNugget (nid n)) h = h"
      by (simp add: fh mh GoldNugget_handleClick_def)
    then show ?thesis by (simp add: h_def)
  qed
  have rem: "nuggets (run_callback (OnCollect (nid n) c) g) = remove1 n (nuggets g)"
    using filter_by_id [OF d n] by (simp add: handleCollectGold_fields)
  have "distinct (nuggets g)" using d by (rule distinct_map [THEN iffD1, THEN conjunct1])
  then have s: "set (remove1 n (nuggets g)) = set (nuggets g) - {n}" by simp
  have l: "Suc (length (remove1 n (nuggets g))) = length (nuggets g)"
    using n by (simp add: length_remove1) (metis length_pos_if_in_set Suc_pred)
  have gc: "gold (run_callback (OnCollect (nid n) c) g) = gold g + (c div 3 + 1)"
    "combo (run_callback (OnCollect (nid n) c) g) = combo g + 1"
    by (simp_all add: handleCollectGold_fields)
  show ?thesis
    using idle click again
    by (simp add: rem s l gc GoldNugget_handleClick_def del: step.simps run_callback.simps)
qed


lemma collect_after_delay:
  assumes ok: "nugget_ids_ok g" and n: "n \<in> set (nuggets g)" and nc: "\<not> collected n"
    and idle: "timers g = []"
  shows "run [ClickNugget (nid n), Wait 299] g =
           (step (ClickNugget (nid n)) g)\<lparr>now := now g + 299\<rparr>"
    and "run [ClickNugget (nid n), Wait 300] g =
           run_callback (OnCollect (nid n) (combo g))
             (g\<lparr>nuggets := map (\<lambda>a. if a = n then n\<lparr>collected := True\<rparr> else a) (nuggets g),
                timers := [], timerSeq := timerSeq g + 1, now := now g + 300\<rparr>)"
    and "timers (run [ClickNugget (nid n), Wait 300] g) =
           [\<lparr>tid = timerSeq g + 1, due = now g + 2300, cb = ResetCombo\<rparr>]"
proof -
  define t where "t = \<lparr>tid = timerSeq g, due = now g + 300, cb = OnCollect (nid n) (combo g)\<rparr>"
  define h where "h = step (ClickNugget (nid n)) g"
  have h: "h = g\<lparr>nuggets := map (\<lambda>a. if a = n then n\<lparr>collected := True\<rparr> else a) (nuggets g),
              timers := [t], timerSeq := timerSeq g + 1\<rparr>"
    using nugget_click_and_collect [OF ok n, of 0] nc idle unfolding h_def t_def by simp
  have th: "timers h = [t]" and nh: "now h = now g" by (simp_all add: h)
  have "next_timer (now g + 299) h = None"
    by (simp add: next_timer_single [OF th] t_def)
  then have "run_timers (now g + 299) h = h\<lparr>now := now g + 299\<rparr>"
    by (simp add: run_timers_none nh)
  then show "run [ClickNugget (nid n), Wait 299] g =
           (step (ClickNugget (nid n)) g)\<lparr>now := now g + 299\<rparr>"
    unfolding h_def [symmetric] by (simp add: nh h_def [symmetric] del: step.simps(2))
  define k where "k = run_callback (OnCollect (nid n) (combo g))
             (g\<lparr>nuggets := map (\<lambda>a. if a = n then n\<lparr>collected := True\<rparr> else a) (nuggets g),
                timers := [], timerSeq := timerSeq g + 1, now := now g + 300\<rparr>)"
  have fk: "fire t h = k"
    unfolding fire_def h k_def t_def by (cases g) simp
  have tk: "timers k = [\<lparr>tid = timerSeq g + 1, due = now g + 2300, cb = ResetCombo\<rparr>]"
    and nk: "now k = now g + 300"
    by (simp_all add: k_def handleCollectGold_unfold idle split: option.splits)
  have "next_timer (now g + 300) h = Some t"
    by (simp add: next_timer_single [OF th] t_def)
  then have "run_timers (now g + 300) h = run_timers (now g + 300) k"
    by (simp add: run_timers_some fk)
  also have "next_timer (now g + 300) k = None"
    by (simp add: next_timer_single [OF tk])
  then have "run_timers (now g + 300) k = k"
    by (simp add: run_timers_none nk)
  finally have r: "run [ClickNugget (nid n), Wait 300] g = k"
    by (simp add: nh h_def [symmetric] del: step.simps(2))
  then show "run [ClickNugget (nid n), Wait 300] g =
           run_callback (OnCollect (nid n) (combo g))
             (g\<lparr>nuggets := map (\<lambda>a. if a = n then n\<lparr>collected := True\<rparr> else a) (nuggets g),
                timers := [], timerSeq := timerSeq g + 1, now := now g + 300\<rparr>)"
    by (simp only: k_def)
  show "timers (run [ClickNugget (nid n), Wait 300] g) =
           [\<lparr>tid = timerSeq g + 1, due = now g + 2300, cb = ResetCombo\<rparr>]"
    by (simp only: r tk)
qed

text \<open>
  C7. In a game whose nugget ids are in order (as they are in every state the game
  reaches), for a nugget \<open>n\<close> of the scene: a click leaves \<open>collected\<close> set, whatever it was
  before, so it changes from false to true at most once; a click on a collected nugget
  changes nothing and schedules nothing; a click on an uncollected nugget sets \<open>collected\<close>
  and schedules \<open>onCollect(id)\<close> to run 300 ms later, and a second click then changes
  nothing. When the scheduled call runs, the owner removes exactly this nugget and
  notifies the gold counter (\<open>gold\<close> grows by the bonus, \<open>combo\<close> by one). With no other
  timer pending, nothing has happened 299 ms after the click, and at 300 ms the call has
  run once: the only timer pending afterwards is the combo timer.
\<close>

theorem nugget_collect_once:
  assumes "nugget_ids_ok g" and "n \<in> set (nuggets g)"
  shows "collected (fst (GoldNugget_handleClick n))
    \<and> (collected n \<longrightarrow>
          GoldNugget_handleClick n = (n, None) \<and> step (ClickNugget (nid n)) g = g)
    \<and> (\<not> collected n \<longrightarrow>
          GoldNugget_handleClick n = (n\<lparr>collected := True\<rparr>, Some (nid n))
        \<and> step (ClickNugget (nid n)) g =
            g\<lparr>nuggets := map (\<lambda>a. if a = n then n\<lparr>collected := True\<rparr> else a) (nuggets g),
              timers := timers g @ [\<lparr>tid = timerSeq g, due = now g + 300,
                                     cb = OnCollect (nid n) (combo g)\<rparr>],
              timerSeq := timerSeq g + 1\<rparr>
        \<and> step (ClickNugget (nid n)) (step (ClickNugget (nid n)) g) =
            step (ClickNugget (nid n)) g)
    \<and> length (nuggets (run_callback (OnCollect (nid n) c) g)) + 1 = length (nuggets g)
    \<and> set (nuggets (run_callback (OnCollect (nid n) c) g)) = set (nuggets g) - {n}
    \<and> gold (run_callback (OnCollect (nid n) c) g) = gold g + (c div 3 + 1)
    \<and> combo (run_callback (OnCollect (nid n) c) g) = combo g + 1
    \<and> (\<not> collected n \<and> timers g = [] \<longrightarrow>
          run [ClickNugget (nid n), Wait 299] g =
            (step (ClickNugget (nid n)) g)\<lparr>now := now g + 299\<rparr>
        \<and> run [ClickNugget (nid n), Wait 300] g =
            run_callback (OnCollect (nid n) (combo g))
              (g\<lparr>nuggets := map (\<lambda>a. if a = n then n\<lparr>collected := True\<rparr> else a) (nuggets g),
                 timers := [], timerSeq := timerSeq g + 1, now := now g + 300\<rparr>)
        \<and> timers (run [ClickNugget (nid n), Wait 300] g) =
            [\<lparr>tid = timerSeq g + 1, due = now g + 2300, cb = ResetCombo\<rparr>])"
proof -
  note A = nugget_click_and_collect [OF assms, of c]
  have "\<not> collected n \<and> timers g = [] \<longrightarrow>
          run [ClickNugget (nid n), Wait 299] g =
            (step (ClickNugget (nid n)) g)\<lparr>now := now g + 299\<rparr>
        \<and> run [ClickNugget (nid n), Wait 300] g =
            run_callback (OnCollect (nid n) (combo g))
              (g\<lparr>nuggets := map (\<lambda>a. if a = n then n\<lparr>collected := True\<rparr> else a) (nuggets g),
                 timers := [], timerSeq := timerSeq g + 1, now := now g + 300\<rparr>)
        \<and> timers (run [ClickNugget (nid n), Wait 300] g) =
            [\<lparr>tid = timerSeq g + 1, due = now g + 2300, cb = ResetCombo\<rparr>]"
    using collect_after_delay [OF assms] by blast
  with A show ?thesis by blast
qed

theorem nugget_collect_once_witness:
  "step (ClickNugget 0) (step (ClickNugget 0)
      (GameScene_handleDig App_handleDig (always 0) (0, 0, 0) True (mount (always 0)))) =
    step (ClickNugget 0)
      (GameScene_handleDig App_handleDig (always 0) (0, 0, 0) True (mount (always 0)))
   \<and> timers (run [ClickNugget 0, Wait 300]
      (GameScene_handleDig App_handleDig (always 0) (0, 0, 0) True (mount (always 0)))) =
    [\<lparr>tid = 2, due = 2300, cb = ResetCombo\<rparr>]"
proof -
  define g where "g = GameScene_handleDig App_handleDig (always 0) (0, 0, 0) True (mount (always 0))"
  define n where "n = new_nugget (0, 0, 0) 0"
  have ng: "nuggets g = [n]" and tg: "timers g = []" and ig: "nuggetIdRef g = 1"
    and sg: "timerSeq g = 1" and wg: "now g = 0"
    by (simp_all add: g_def n_def handleDig_unfold mount_fields)
  have i: "nid n = 0" and nc: "\<not> collected n" by (simp_all add: n_def new_nugget_def)
  have ok: "nugget_ids_ok g" by (simp add: nugget_ids_ok_def ng ig i)
  have mem: "n \<in> set (nuggets g)" by (simp add: ng)
  note G = nugget_collect_once [OF ok mem, of 0, unfolded i]
  have "\<not> collected n \<longrightarrow>
          GoldNugget_handleClick n = (n\<lparr>collected := True\<rparr>, Some 0)
        \<and> step (ClickNugget 0) g =
            g\<lparr>nuggets := map (\<lambda>a. if a = n then n\<lparr>collected := True\<rparr> else a) (nuggets g),
              timers := timers g @ [\<lparr>tid = timerSeq g, due = now g + 300,
                                     cb = OnCollect 0 (combo g)\<rparr>],
              timerSeq := timerSeq g + 1\<rparr>
        \<and> step (ClickNugget 0) (step (ClickNugget 0) g) = step (ClickNugget 0) g"
    using G by - (elim conjE, assumption)
  with nc have a: "step (ClickNugget 0) (step (ClickNugget 0) g) = step (ClickNugget 0) g"
    by blast
  have "\<not> collected n \<and> timers g = [] \<longrightarrow>
          run [ClickNugget 0, Wait 299] g = (step (ClickNugget 0) g)\<lparr>now := now g + 299\<rparr>
        \<and> run [ClickNugget 0, Wait 300] g =
            run_callback (OnCollect 0 (combo g))
              (g\<lparr>nuggets := map (\<lambda>a. if a = n then n\<lparr>collected := True\<rparr> else a) (nuggets g),
                 timers := [], timerSeq := timerSeq g + 1, now := now g + 300\<rparr>)
        \<and> timers (run [ClickNugget 0, Wait 300] g) =
            [\<lparr>tid = timerSeq g + 1, due = now g + 2300, cb = ResetCombo\<rparr>]"
    using G by - (elim conjE, assumption)
  with nc tg have "timers (run [ClickNugget 0, Wait 300] g) =
            [\<lparr>tid = timerSeq g + 1, due = now g + 2300, cb = ResetCombo\<rparr>]"
    by blast
  then have b: "timers (run [ClickNugget 0, Wait 300] g) = [\<lparr>tid = 2, due = 2300, cb = ResetCombo\<rparr>]"
    by (simp add: sg wg)
  from a b show ?thesis unfolding g_def by blast
qed


section \<open>The combo timer\<close>

lemma combo_timer_ok_iff:
  "combo_timer_ok g \<longleftrightarrow>
     0 < timerSeq g
     \<and> (\<forall>r. comboTimerRef g = Some r \<longrightarrow> r < timerSeq g)
     \<and> (\<forall>t\<in>set (timers g). 0 < tid t \<and> tid t < timerSeq g
           \<and> ((cb t = ResetCombo) = (comboTimerRef g = Some (tid t))))"
  by (auto simp add: combo_timer_ok_def list_all_iff split: option.splits)

lemma handleGoldCollect_timers:
  assumes "combo_timer_ok g"
  shows "timers (App_handleGoldCollect c g) =
      filter (\<lambda>t. cb t \<noteq> ResetCombo) (timers g)
      @ [\<lparr>tid = timerSeq g, due = now g + 2000, cb = ResetCombo\<rparr>]"
proof -
  have a: "list_all (\<lambda>t. 0 < tid t \<and> (cb t = ResetCombo) = (comboTimerRef g = Some (tid t)))
      (timers g)"
    using assms by (simp add: combo_timer_ok_iff list_all_iff)
  have "(case comboTimerRef g of
            None \<Rightarrow> timers g
          | Some t \<Rightarrow> if t \<noteq> 0 then filter (\<lambda>u. tid u \<noteq> t) (timers g) else timers g) =
        filter (\<lambda>t. cb t \<noteq> ResetCombo) (timers g)"
  proof (cases "comboTimerRef g")
    case None
    with a show ?thesis by (simp add: list_all_iff filter_id_conv)
  next
    case (Some r)
    show ?thesis
    proof (cases "r = 0")
      case True
      with a Some show ?thesis by (auto simp add: list_all_iff filter_id_conv)
    next
      case False
      have "filter (\<lambda>u. tid u \<noteq> r) (timers g) = filter (\<lambda>t. cb t \<noteq> ResetCombo) (timers g)"
        using a Some by (intro filter_cong) (auto simp add: list_all_iff)
      with False Some show ?thesis by simp
    qed
  qed
  moreover have "timers (App_handleGoldCollect c g) =
      (case comboTimerRef g of
            None \<Rightarrow> timers g
          | Some t \<Rightarrow> if t \<noteq> 0 then filter (\<lambda>u. tid u \<noteq> t) (timers g) else timers g)
      @ [\<lparr>tid = timerSeq g, due = now g + 2000, cb = ResetCombo\<rparr>]"
    by (simp add: App_handleGoldCollect_def setTimeout_def clearTimeout_def Let_def
        split: option.splits)
  ultimately show ?thesis by (simp only:)
qed

lemma handleGoldCollect_ok:
  assumes "combo_timer_ok g"
  shows "combo_timer_ok (App_handleGoldCollect c g)"
proof -
  define h where "h = App_handleGoldCollect c g"
  have f: "timerSeq h = timerSeq g + 1" "comboTimerRef h = Some (timerSeq g)"
    "timers h = filter (\<lambda>t. cb t \<noteq> ResetCombo) (timers g)
        @ [\<lparr>tid = timerSeq g, due = now g + 2000, cb = ResetCombo\<rparr>]"
    by (simp_all add: h_def handleGoldCollect_fields handleGoldCollect_timers [OF assms])
  from assms have g: "0 < timerSeq g"
    "\<forall>t\<in>set (timers g). 0 < tid t \<and> tid t < timerSeq g"
    by (simp_all add: combo_timer_ok_iff)
  have "0 < tid t \<and> tid t < timerSeq g + 1
      \<and> (cb t = ResetCombo) = (Some (timerSeq g) = Some (tid t))"
    if "t \<in> set (filter (\<lambda>t. cb t \<noteq> ResetCombo) (timers g)
        @ [\<lparr>tid = timerSeq g, due = now g + 2000, cb = ResetCombo\<rparr>])" for t
  proof -
    from that consider (old) "t \<in> set (timers g)" "cb t \<noteq> ResetCombo"
      | (new) "t = \<lparr>tid = timerSeq g, due = now g + 2000, cb = ResetCombo\<rparr>"
      by auto
    then show ?thesis
    proof cases
      case old
      with g(2) have "0 < tid t" "tid t < timerSeq g" by auto
      with old show ?thesis by simp
    next
      case new
      with g(1) show ?thesis by simp
    qed
  qed
  then have "combo_timer_ok h"
    unfolding combo_timer_ok_iff f by simp
  then show ?thesis by (simp add: h_def)
qed

lemma tick_ok: "combo_timer_ok g \<Longrightarrow> combo_timer_ok (g\<lparr>now := n\<rparr>)"
  by (simp add: combo_timer_ok_iff)

lemma fire_ok:
  assumes "combo_timer_ok g"
  shows "combo_timer_ok (fire t g)"
proof -
  define h where "h = g\<lparr>now := max (now g) (due t), timers := filter (\<lambda>u. tid u \<noteq> tid t) (timers g)\<rparr>"
  have h: "combo_timer_ok h"
    using assms by (auto simp add: combo_timer_ok_iff h_def)
  show ?thesis
  proof (cases "cb t")
    case ResetCombo
    have "combo_timer_ok (h\<lparr>combo := 0\<rparr>)" using h by (simp add: combo_timer_ok_iff)
    then show ?thesis by (simp add: fire_def ResetCombo h_def)
  next
    case (OnCollect i c)
    have "combo_timer_ok (h\<lparr>nuggets := filter (\<lambda>n. nid n \<noteq> i) (nuggets h)\<rparr>)"
      using h by (simp add: combo_timer_ok_iff)
    then have "combo_timer_ok (GameScene_handleCollectGold (App_handleGoldCollect c) i h)"
      unfolding GameScene_handleCollectGold_def by (rule handleGoldCollect_ok)
    then show ?thesis by (simp add: fire_def OnCollect h_def)
  qed
qed

lemma step_ok:
  assumes "combo_timer_ok g"
  shows "combo_timer_ok (step e g)"
proof (cases e)
  case (ClickBlock k rnd)
  have "combo_timer_ok (g\<lparr>blocks := bs\<rparr>)" for bs
    using assms by (simp add: combo_timer_ok_iff)
  moreover have "combo_timer_ok (GameScene_handleDig App_handleDig rnd p gf h)"
    if "combo_timer_ok h" for p gf h
    using that by (simp add: combo_timer_ok_iff handleDig_unfold)
  ultimately show ?thesis
    using assms by (simp add: ClickBlock Let_def split: option.splits prod.splits)
next
  case (ClickNugget i)
  have "combo_timer_ok (snd (setTimeout (OnCollect j c) 300 (g\<lparr>nuggets := ns\<rparr>)))" for j c ns
    using assms
    by (auto simp add: combo_timer_ok_iff setTimeout_def)
  moreover have "combo_timer_ok (g\<lparr>nuggets := ns\<rparr>)" for ns
    using assms by (simp add: combo_timer_ok_iff)
  ultimately show ?thesis
    using assms by (simp add: ClickNugget Let_def split: option.splits)
next
  case (Frame delta)
  then show ?thesis using assms by (simp add: combo_timer_ok_iff)
next
  case (Wait ms)
  show ?thesis
    unfolding Wait step.simps
    by (rule run_timers_invariant [where I = combo_timer_ok]) (simp_all add: fire_ok tick_ok assms)
qed

lemma run_ok: "combo_timer_ok g \<Longrightarrow> combo_timer_ok (run es g)"
  by (rule run_invariant [where I = combo_timer_ok]) (simp_all add: step_ok)

lemma mount_ok: "combo_timer_ok (mount rnd)"
  by (simp add: combo_timer_ok_def mount_fields)


lemma next_timer_quiet:
  "list_all (\<lambda>t. deadline < due t) (timers g) \<Longrightarrow> next_timer deadline g = None"
proof -
  assume "list_all (\<lambda>t. deadline < due t) (timers g)"
  then have "filter (\<lambda>t. due t \<le> deadline) (timers g) = []"
    by (auto simp add: list_all_iff filter_empty_conv)
  then show ?thesis by (simp add: next_timer_def)
qed

lemma next_timer_only:
  "filter (\<lambda>t. due t \<le> deadline) (timers g) = [t] \<Longrightarrow> next_timer deadline g = Some t"
  by (simp add: next_timer_def)

lemma combo_after_collect:
  assumes ok: "combo_timer_ok g"
    and quiet: "list_all (\<lambda>t. cb t = ResetCombo \<or> now g + ms < due t) (timers g)"
  shows "combo (run_timers (now g + ms) (App_handleGoldCollect c g)) =
      (if ms < 2000 then combo g + 1 else 0)"
proof -
  define h where "h = App_handleGoldCollect c g"
  define olds where "olds = filter (\<lambda>t. cb t \<noteq> ResetCombo) (timers g)"
  define new where "new = \<lparr>tid = timerSeq g, due = now g + 2000, cb = ResetCombo\<rparr>"
  have th: "timers h = olds @ [new]"
    unfolding h_def olds_def new_def using ok by (rule handleGoldCollect_timers)
  have late: "list_all (\<lambda>t. now g + ms < due t) olds"
    using quiet by (auto simp add: olds_def list_all_iff)
  have nh: "now h = now g" and ch: "combo h = combo g + 1"
    by (simp_all add: h_def handleGoldCollect_fields)
  show ?thesis
  proof (cases "ms < 2000")
    case True
    have "list_all (\<lambda>t. now g + ms < due t) (timers h)"
      using late True by (simp add: th new_def)
    then have "next_timer (now g + ms) h = None" by (rule next_timer_quiet)
    then have "run_timers (now g + ms) h = h\<lparr>now := max (now h) (now g + ms)\<rparr>"
      by (rule run_timers_none)
    with True show ?thesis by (simp add: h_def [symmetric] ch)
  next
    case False
    have "filter (\<lambda>t. due t \<le> now g + ms) olds = []"
      using late by (auto simp add: list_all_iff filter_empty_conv)
    then have "filter (\<lambda>t. due t \<le> now g + ms) (timers h) = [new]"
      using False by (simp add: th new_def)
    then have "next_timer (now g + ms) h = Some new" by (rule next_timer_only)
    then have r: "run_timers (now g + ms) h = run_timers (now g + ms) (fire new h)"
      by (rule run_timers_some)
    define k where "k = fire new h"
    have ck: "combo k = 0" by (simp add: k_def fire_def new_def)
    have "timers k = filter (\<lambda>u. tid u \<noteq> tid new) (timers h)"
      by (simp add: k_def fire_def new_def)
    then have "set (timers k) \<subseteq> set olds"
      by (auto simp add: th)
    with late have "list_all (\<lambda>t. now g + ms < due t) (timers k)"
      by (auto simp add: list_all_iff)
    then have "next_timer (now g + ms) k = None" by (rule next_timer_quiet)
    then have "run_timers (now g + ms) k = k\<lparr>now := max (now k) (now g + ms)\<rparr>"
      by (rule run_timers_none)
    with r False show ?thesis by (simp add: h_def [symmetric] k_def [symmetric] ck)
  qed
qed

lemma collections_keep_combo:
  assumes "combo_timer_ok h"
    and "timers h = [\<lparr>tid = T, due = now h + 2000, cb = ResetCombo\<rparr>]"
    and "list_all (\<lambda>(d, c). d < 2000) ds"
  shows "combo (collections ds h) = combo h + length ds"
  using assms
proof (induction ds arbitrary: h T)
  case Nil
  then show ?case by simp
next
  case (Cons a ds)
  obtain d c where a: "a = (d, c)" by (cases a)
  from Cons.prems(3) a have d: "d < 2000" and rest: "list_all (\<lambda>(d, c). d < 2000) ds"
    by simp_all
  define w where "w = h\<lparr>now := now h + d\<rparr>"
  have "list_all (\<lambda>t. now h + d < due t) (timers h)"
    using d by (simp add: Cons.prems(2))
  then have "next_timer (now h + d) h = None" by (rule next_timer_quiet)
  then have rw: "run_timers (now h + d) h = w"
    by (simp add: run_timers_none w_def)
  have okw: "combo_timer_ok w"
    unfolding w_def using Cons.prems(1) by (rule tick_ok)
  define h' where "h' = App_handleGoldCollect c w"
  have ok': "combo_timer_ok h'"
    unfolding h'_def using okw by (rule handleGoldCollect_ok)
  have t': "timers h' = [\<lparr>tid = timerSeq w, due = now h' + 2000, cb = ResetCombo\<rparr>]"
    unfolding h'_def handleGoldCollect_timers [OF okw]
    by (simp add: w_def Cons.prems(2) handleGoldCollect_fields)
  have c': "combo h' = combo h + 1"
    by (simp add: h'_def handleGoldCollect_fields w_def)
  have "combo (collections ds h') = combo h' + length ds"
    using ok' t' rest by (rule Cons.IH)
  then show ?case
    by (simp add: a rw h'_def [symmetric] c')
qed

text \<open>
  C8. In a game whose timer ids are in order (as they are in every state the game
  reaches), a gold collection leaves exactly one combo timer pending, due 2000 ms later,
  in place of any that was pending before, with \<open>comboTimerRef\<close> holding its id. If no
  collection is scheduled within the next \<open>ms\<close> ms, then after \<open>ms\<close> ms \<open>combo\<close> is still
  what the collection made it when \<open>ms < 2000\<close>, and 0 when \<open>ms \<ge> 2000\<close>. And over any
  series of further collections, each less than 2000 ms after the one before, \<open>combo\<close>
  grows by one per collection and never decays.
\<close>

theorem combo_decay:
  assumes "combo_timer_ok g"
  shows "comboTimerRef (App_handleGoldCollect c g) = Some (timerSeq g)
    \<and> filter (\<lambda>t. cb t = ResetCombo) (timers (App_handleGoldCollect c g)) =
        [\<lparr>tid = timerSeq g, due = now g + 2000, cb = ResetCombo\<rparr>]
    \<and> combo (App_handleGoldCollect c g) = combo g + 1
    \<and> (\<forall>ms. list_all (\<lambda>t. cb t = ResetCombo \<or> now g + ms < due t) (timers g) \<longrightarrow>
          combo (run_timers (now g + ms) (App_handleGoldCollect c g)) =
            (if ms < 2000 then combo g + 1 else 0))
    \<and> (list_all (\<lambda>t. cb t = ResetCombo) (timers g) \<longrightarrow>
          (\<forall>ds. list_all (\<lambda>(d, c'). d < 2000) ds \<longrightarrow>
            combo (collections ds (App_handleGoldCollect c g)) = combo g + 1 + length ds))
    \<and> (\<forall>es. combo_timer_ok (run es (App_handleGoldCollect c g)))
    \<and> (\<forall>es rnd. combo_timer_ok (run es (mount rnd)))"
proof -
  define h where "h = App_handleGoldCollect c g"
  have th: "timers h = filter (\<lambda>t. cb t \<noteq> ResetCombo) (timers g)
      @ [\<lparr>tid = timerSeq g, due = now g + 2000, cb = ResetCombo\<rparr>]"
    unfolding h_def using assms by (rule handleGoldCollect_timers)
  have okh: "combo_timer_ok h"
    unfolding h_def using assms by (rule handleGoldCollect_ok)
  have 1: "comboTimerRef h = Some (timerSeq g)" and 3: "combo h = combo g + 1"
    and nh: "now h = now g"
    by (simp_all add: h_def handleGoldCollect_fields)
  have 2: "filter (\<lambda>t. cb t = ResetCombo) (timers h) =
        [\<lparr>tid = timerSeq g, due = now g + 2000, cb = ResetCombo\<rparr>]"
    by (simp add: th)
  have 4: "combo (run_timers (now g + ms) h) = (if ms < 2000 then combo g + 1 else 0)"
    if "list_all (\<lambda>t. cb t = ResetCombo \<or> now g + ms < due t) (timers g)" for ms
    unfolding h_def using assms that by (rule combo_after_collect)
  have 5: "combo (collections ds h) = combo g + 1 + length ds"
    if only: "list_all (\<lambda>t. cb t = ResetCombo) (timers g)"
      and ds: "list_all (\<lambda>(d, c'). d < 2000) ds" for ds
  proof -
    have "filter (\<lambda>t. cb t \<noteq> ResetCombo) (timers g) = []"
      using only by (auto simp add: list_all_iff filter_empty_conv)
    then have "timers h = [\<lparr>tid = timerSeq g, due = now h + 2000, cb = ResetCombo\<rparr>]"
      by (simp add: th nh)
    with okh have "combo (collections ds h) = combo h + length ds"
      using ds by (rule collections_keep_combo)
    then show ?thesis by (simp add: 3)
  qed
  have 6: "combo_timer_ok (run es h)" for es
    using okh by (rule run_ok)
  have 7: "combo_timer_ok (run es (mount rnd))" for es rnd
    using mount_ok by (rule run_ok)
  show ?thesis
    unfolding h_def [symmetric] using 1 2 3 4 5 6 7 by blast
qed

theorem combo_decay_witness:
  "combo (run_timers 1999 (App_handleGoldCollect 0 (mount (always 0)))) = 1
   \<and> combo (run_timers 2000 (App_handleGoldCollect 0 (mount (always 0)))) = 0
   \<and> combo (collections [(1999, 1), (1999, 2)] (App_handleGoldCollect 0 (mount (always 0)))) = 3"
proof -
  define g where "g = mount (always 0)"
  have ok: "combo_timer_ok g" by (simp add: g_def combo_timer_ok_def mount_fields)
  have f: "timers g = []" "now g = 0" "combo g = 0" by (simp_all add: g_def mount_fields)
  note G = combo_decay [OF ok, of 0]
  have w: "\<forall>ms. list_all (\<lambda>t. cb t = ResetCombo \<or> now g + ms < due t) (timers g) \<longrightarrow>
          combo (run_timers (now g + ms) (App_handleGoldCollect 0 g)) =
            (if ms < 2000 then combo g + 1 else 0)"
    using G by - (elim conjE, assumption)
  have s: "list_all (\<lambda>t. cb t = ResetCombo) (timers g) \<longrightarrow>
          (\<forall>ds. list_all (\<lambda>(d, c'). d < 2000) ds \<longrightarrow>
            combo (collections ds (App_handleGoldCollect 0 g)) = combo g + 1 + length ds)"
    using G by - (elim conjE, assumption)
  have "combo (run_timers (now g + 1999) (App_handleGoldCollect 0 g)) =
      (if (1999::nat) < 2000 then combo g + 1 else 0)"
    using w by (simp add: f)
  then have a: "combo (run_timers 1999 (App_handleGoldCollect 0 g)) = 1"
    by (simp add: f)
  have "combo (run_timers (now g + 2000) (App_handleGoldCollect 0 g)) =
      (if (2000::nat) < 2000 then combo g + 1 else 0)"
    using w by (simp add: f)
  then have b: "combo (run_timers 2000 (App_handleGoldCollect 0 g)) = 0"
    by (simp add: f)
  have "list_all (\<lambda>(d, c'). d < 2000) [(1999::nat, 1::nat), (1999, 2)]" by simp
  with s have "combo (collections [(1999, 1), (1999, 2)] (App_handleGoldCollect 0 g)) =
      combo g + 1 + length [(1999::nat, 1::nat), (1999, 2)]"
    by (simp add: f del: collections.simps)
  then have c: "combo (collections [(1999, 1), (1999, 2)] (App_handleGoldCollect 0 g)) = 3"
    by (simp add: f del: collections.simps)
  from a b c show ?thesis unfolding g_def by blast
qed


section \<open>The frame of a collection\<close>

text \<open>
  C9. Collecting the nugget with id \<open>i\<close> changes the game in the nuggets, \<open>gold\<close>, \<open>combo\<close>,
  the combo timer (\<open>comboTimerRef\<close>, the pending timers and the next timer id) and in
  nothing else: in particular the blocks, the particles and \<open>digs\<close> are as before. The
  nuggets that remain are exactly those whose id is not \<open>i\<close>. Of the pending timers only
  the one that \<open>comboTimerRef\<close> names is removed, and one timer that resets the combo
  2000 ms later is added; in every state in which \<open>comboTimerRef\<close> names the pending reset
  (every state the game reaches is one), the pending calls of \<open>onCollect\<close> are all kept,
  in their order.
\<close>

theorem collect_frame:
  "GameScene_handleCollectGold (App_handleGoldCollect c) i g =
     g\<lparr>nuggets := filter (\<lambda>n. nid n \<noteq> i) (nuggets g),
       gold := gold (GameScene_handleCollectGold (App_handleGoldCollect c) i g),
       combo := combo (GameScene_handleCollectGold (App_handleGoldCollect c) i g),
       comboTimerRef := comboTimerRef (GameScene_handleCollectGold (App_handleGoldCollect c) i g),
       timers := timers (GameScene_handleCollectGold (App_handleGoldCollect c) i g),
       timerSeq := timerSeq (GameScene_handleCollectGold (App_handleGoldCollect c) i g)\<rparr>
   \<and> blocks (GameScene_handleCollectGold (App_handleGoldCollect c) i g) = blocks g
   \<and> particles (GameScene_handleCollectGold (App_handleGoldCollect c) i g) = particles g
   \<and> digs (GameScene_handleCollectGold (App_handleGoldCollect c) i g) = digs g
   \<and> set (nuggets (GameScene_handleCollectGold (App_handleGoldCollect c) i g)) =
       {n \<in> set (nuggets g). nid n \<noteq> i}
   \<and> gold (GameScene_handleCollectGold (App_handleGoldCollect c) i g) = gold g + (c div 3 + 1)
   \<and> combo (GameScene_handleCollectGold (App_handleGoldCollect c) i g) = combo g + 1
   \<and> comboTimerRef (GameScene_handleCollectGold (App_handleGoldCollect c) i g) =
       Some (timerSeq g)
   \<and> timerSeq (GameScene_handleCollectGold (App_handleGoldCollect c) i g) = timerSeq g + 1
   \<and> timers (GameScene_handleCollectGold (App_handleGoldCollect c) i g) =
       (case comboTimerRef g of
          None \<Rightarrow> timers g
        | Some t \<Rightarrow> if t \<noteq> 0 then filter (\<lambda>u. tid u \<noteq> t) (timers g) else timers g)
       @ [\<lparr>tid = timerSeq g, due = now g + 2000, cb = ResetCombo\<rparr>]
   \<and> (combo_timer_ok g \<longrightarrow>
        timers (GameScene_handleCollectGold (App_handleGoldCollect c) i g) =
          filter (\<lambda>t. cb t \<noteq> ResetCombo) (timers g)
          @ [\<lparr>tid = timerSeq g, due = now g + 2000, cb = ResetCombo\<rparr>]
        \<and> filter (\<lambda>t. cb t \<noteq> ResetCombo)
            (timers (GameScene_handleCollectGold (App_handleGoldCollect c) i g)) =
          filter (\<lambda>t. cb t \<noteq> ResetCombo) (timers g))
   \<and> (\<forall>es rnd. combo_timer_ok (run es (mount rnd)))"
proof -
  define h where "h = GameScene_handleCollectGold (App_handleGoldCollect c) i g"
  have u: "h = g\<lparr>nuggets := filter (\<lambda>n. nid n \<noteq> i) (nuggets g),
       gold := gold g + (c div 3 + 1),
       combo := combo g + 1,
       timers :=
         (case comboTimerRef g of
            None \<Rightarrow> timers g
          | Some t \<Rightarrow> if t \<noteq> 0 then filter (\<lambda>u. tid u \<noteq> t) (timers g) else timers g)
         @ [\<lparr>tid = timerSeq g, due = now g + 2000, cb = ResetCombo\<rparr>],
       timerSeq := timerSeq g + 1,
       comboTimerRef := Some (timerSeq g)\<rparr>"
    unfolding h_def by (rule handleCollectGold_unfold)
  have 1: "h = g\<lparr>nuggets := filter (\<lambda>n. nid n \<noteq> i) (nuggets g),
       gold := gold h, combo := combo h, comboTimerRef := comboTimerRef h,
       timers := timers h, timerSeq := timerSeq h\<rparr>"
    by (simp add: u)
  have 2: "blocks h = blocks g" "particles h = particles g" "digs h = digs g"
    "set (nuggets h) = {n \<in> set (nuggets g). nid n \<noteq> i}"
    "gold h = gold g + (c div 3 + 1)" "combo h = combo g + 1"
    "comboTimerRef h = Some (timerSeq g)" "timerSeq h = timerSeq g + 1"
    by (simp_all add: u)
  have 3: "timers h =
       (case comboTimerRef g of
          None \<Rightarrow> timers g
        | Some t \<Rightarrow> if t \<noteq> 0 then filter (\<lambda>u. tid u \<noteq> t) (timers g) else timers g)
       @ [\<lparr>tid = timerSeq g, due = now g + 2000, cb = ResetCombo\<rparr>]"
    by (simp add: u)
  have "timers (App_handleGoldCollect c g) =
       (case comboTimerRef g of
          None \<Rightarrow> timers g
        | Some t \<Rightarrow> if t \<noteq> 0 then filter (\<lambda>u. tid u \<noteq> t) (timers g) else timers g)
       @ [\<lparr>tid = timerSeq g, due = now g + 2000, cb = ResetCombo\<rparr>]"
    by (simp add: App_handleGoldCollect_def setTimeout_def clearTimeout_def Let_def
        split: option.splits)
  with 3 have th: "timers h = timers (App_handleGoldCollect c g)"
    by (simp only:)
  have 4: "timers h = filter (\<lambda>t. cb t \<noteq> ResetCombo) (timers g)
          @ [\<lparr>tid = timerSeq g, due = now g + 2000, cb = ResetCombo\<rparr>]
        \<and> filter (\<lambda>t. cb t \<noteq> ResetCombo) (timers h) =
          filter (\<lambda>t. cb t \<noteq> ResetCombo) (timers g)" if "combo_timer_ok g"
    unfolding th using handleGoldCollect_timers [OF that, of c] by simp
  have 5: "\<forall>es rnd. combo_timer_ok (run es (mount rnd))"
    using run_ok [OF mount_ok] by blast
  show ?thesis
    unfolding h_def [symmetric] using 1 2 3 4 5 by blast
qed

theorem collect_frame_witness:
  "blocks (GameScene_handleCollectGold (App_handleGoldCollect 0) 7
      ((mount (always 0))\<lparr>nuggets := [new_nugget (0, 0, 0) 7, new_nugget (1, 0, 0) 8],
         timers := [\<lparr>tid = 1, due = 300, cb = OnCollect 8 0\<rparr>,
                    \<lparr>tid = 2, due = 2000, cb = ResetCombo\<rparr>],
         comboTimerRef := Some 2, timerSeq := 3\<rparr>)) =
     init_blocks (always 0)
   \<and> new_nugget (1, 0, 0) 8 \<in> set (nuggets (GameScene_handleCollectGold (App_handleGoldCollect 0) 7
      ((mount (always 0))\<lparr>nuggets := [new_nugget (0, 0, 0) 7, new_nugget (1, 0, 0) 8],
         timers := [\<lparr>tid = 1, due = 300, cb = OnCollect 8 0\<rparr>,
                    \<lparr>tid = 2, due = 2000, cb = ResetCombo\<rparr>],
         comboTimerRef := Some 2, timerSeq := 3\<rparr>)))
   \<and> new_nugget (0, 0, 0) 7 \<notin> set (nuggets (GameScene_handleCollectGold (App_handleGoldCollect 0) 7
      ((mount (always 0))\<lparr>nuggets := [new_nugget (0, 0, 0) 7, new_nugget (1, 0, 0) 8],
         timers := [\<lparr>tid = 1, due = 300, cb = OnCollect 8 0\<rparr>,
                    \<lparr>tid = 2, due = 2000, cb = ResetCombo\<rparr>],
         comboTimerRef := Some 2, timerSeq := 3\<rparr>)))
   \<and> timers (GameScene_handleCollectGold (App_handleGoldCollect 0) 7
      ((mount (always 0))\<lparr>nuggets := [new_nugget (0, 0, 0) 7, new_nugget (1, 0, 0) 8],
         timers := [\<lparr>tid = 1, due = 300, cb = OnCollect 8 0\<rparr>,
                    \<lparr>tid = 2, due = 2000, cb = ResetCombo\<rparr>],
         comboTimerRef := Some 2, timerSeq := 3\<rparr>)) =
     [\<lparr>tid = 1, due = 300, cb = OnCollect 8 0\<rparr>, \<lparr>tid = 3, due = 2000, cb = ResetCombo\<rparr>]"
proof -
  define g where
    "g = (mount (always 0))\<lparr>nuggets := [new_nugget (0, 0, 0) 7, new_nugget (1, 0, 0) 8],
         timers := [\<lparr>tid = 1, due = 300, cb = OnCollect 8 0\<rparr>,
                    \<lparr>tid = 2, due = 2000, cb = ResetCombo\<rparr>],
         comboTimerRef := Some 2, timerSeq := 3\<rparr>"
  define h where "h = GameScene_handleCollectGold (App_handleGoldCollect 0) 7 g"
  note F = collect_frame [of 0 7 g, folded h_def]
  have b: "blocks h = blocks g"
    using F by - (elim conjE, assumption)
  have n: "set (nuggets h) = {n \<in> set (nuggets g). nid n \<noteq> 7}"
    using F by - (elim conjE, assumption)
  have t: "combo_timer_ok g \<longrightarrow>
        timers h =
          filter (\<lambda>t. cb t \<noteq> ResetCombo) (timers g)
          @ [\<lparr>tid = timerSeq g, due = now g + 2000, cb = ResetCombo\<rparr>]
        \<and> filter (\<lambda>t. cb t \<noteq> ResetCombo) (timers h) =
          filter (\<lambda>t. cb t \<noteq> ResetCombo) (timers g)"
    using F by - (elim conjE, assumption)
  have bg: "blocks g = init_blocks (always 0)"
    by (simp add: g_def mount_fields)
  have ng: "nuggets g = [new_nugget (0, 0, 0) 7, new_nugget (1, 0, 0) 8]"
    by (simp add: g_def)
  have tg: "timers g = [\<lparr>tid = 1, due = 300, cb = OnCollect 8 0\<rparr>,
                    \<lparr>tid = 2, due = 2000, cb = ResetCombo\<rparr>]"
    "timerSeq g = 3" "now g = 0" "comboTimerRef g = Some 2"
    by (simp_all add: g_def mount_fields)
  have ok: "combo_timer_ok g"
    by (simp add: combo_timer_ok_def tg)
  have i: "nid (new_nugget (0, 0, 0) 7) = 7" "nid (new_nugget (1, 0, 0) 8) = 8"
    by (simp_all add: new_nugget_def)
  have "blocks h = init_blocks (always 0)"
    by (simp only: b bg)
  moreover have "new_nugget (1, 0, 0) 8 \<in> set (nuggets h)"
    unfolding n ng using i by simp
  moreover have "new_nugget (0, 0, 0) 7 \<notin> set (nuggets h)"
    unfolding n ng using i by simp
  moreover have "timers h =
     [\<lparr>tid = 1, due = 300, cb = OnCollect 8 0\<rparr>, \<lparr>tid = 3, due = 2000, cb = ResetCombo\<rparr>]"
    using t ok by (simp add: tg)
  ultimately show ?thesis unfolding h_def g_def by blast
qed


section \<open>Digging a block out\<close>

lemma map_by_id_const:
  "distinct (map f xs) \<Longrightarrow> x \<in> set xs \<Longrightarrow>
   map (\<lambda>a. if f a = f x then u a else a) xs = map (\<lambda>a. if f a = f x then u x else a) xs"
  by (rule map_cong) (auto simp add: distinct_map inj_on_def)

lemma click_block_step:
  assumes d: "distinct (map bid (blocks g))" and b: "b \<in> set (blocks g)"
  shows "step (ClickBlock (bid b) rnd) g =
     (case snd (GroundBlock_handleClick b) of
        None \<Rightarrow>
          g\<lparr>blocks := map (\<lambda>a. if bid a = bid b then fst (GroundBlock_handleClick b) else a)
                         (blocks g)\<rparr>
      | Some (p, gold_found) \<Rightarrow>
          GameScene_handleDig App_handleDig rnd p gold_found
            (g\<lparr>blocks := map (\<lambda>a. if bid a = bid b then fst (GroundBlock_handleClick b) else a)
                           (blocks g)\<rparr>))"
proof -
  have f: "find (\<lambda>a. bid a = bid b) (blocks g) = Some b"
    using d b by (rule find_by_id)
  have m: "map (\<lambda>a. if bid a = bid b then fst (GroundBlock_handleClick a) else a) (blocks g) =
      map (\<lambda>a. if bid a = bid b then fst (GroundBlock_handleClick b) else a) (blocks g)"
    using d b by (rule map_by_id_const)
  show ?thesis
    by (simp add: Let_def f m)
qed

lemma upd_ids:
  "bid c = k \<Longrightarrow> map bid (map (\<lambda>a. if bid a = k then c else a) bs) = map bid bs"
  by (induction bs) auto

lemma upd_upd:
  "bid c = k \<Longrightarrow>
   map (\<lambda>a. if bid a = k then c' else a) (map (\<lambda>a. if bid a = k then c else a) bs) =
   map (\<lambda>a. if bid a = k then c' else a) bs"
  by (induction bs) auto

lemma upd_filter:
  "bid c = k \<Longrightarrow>
   filter (\<lambda>a. bid a \<noteq> k) (map (\<lambda>a. if bid a = k then c else a) bs) =
   filter (\<lambda>a. bid a \<noteq> k) bs"
  by (induction bs) auto

lemma dig_fresh_block:
  assumes d: "distinct (map bid (blocks g))" and b: "b \<in> set (blocks g)"
    and fresh: "dugLevel b = 0" and key: "block_id (pos b) = bid b"
  shows "run [ClickBlock (bid b) r1, ClickBlock (bid b) r2, ClickBlock (bid b) r3] g =
     GameScene_handleDig App_handleDig r3 (pos b) (hasGold b) g"
proof -
  define k where "k = bid b"
  define V where "V c = map (\<lambda>a. if bid a = k then c else a) (blocks g)" for c
  have Vid: "map bid (V c) = map bid (blocks g)" if "bid c = k" for c
    unfolding V_def using that by (rule upd_ids)
  have Vmem: "c \<in> set (V c)" for c
    unfolding V_def using b by (auto simp add: k_def image_iff)
  have VV: "map (\<lambda>a. if bid a = k then c' else a) (V c) = V c'" if "bid c = k" for c c'
    unfolding V_def using that by (rule upd_upd)
  have Vfil: "filter (\<lambda>a. bid a \<noteq> k) (V c) = filter (\<lambda>a. bid a \<noteq> k) (blocks g)"
    if "bid c = k" for c
    unfolding V_def using that by (rule upd_filter)
  define b1 where "b1 = b\<lparr>dugLevel := 1\<rparr>"
  define b2 where "b2 = b\<lparr>dugLevel := 2\<rparr>"
  define b3 where "b3 = b\<lparr>dugLevel := 3\<rparr>"
  have ids: "bid b1 = k" "bid b2 = k" "bid b3 = k"
    by (simp_all add: b1_def b2_def b3_def k_def)
  have c1: "GroundBlock_handleClick b = (b1, None)"
    and c2: "GroundBlock_handleClick b1 = (b2, None)"
    and c3: "GroundBlock_handleClick b2 = (b3, Some (pos b, hasGold b))"
    using fresh by (simp_all add: GroundBlock_handleClick_def b1_def b2_def b3_def)
  define g1 where "g1 = g\<lparr>blocks := V b1\<rparr>"
  define g2 where "g2 = g\<lparr>blocks := V b2\<rparr>"
  define g3 where "g3 = g\<lparr>blocks := V b3\<rparr>"
  have s1: "step (ClickBlock k r1) g = g1"
    using click_block_step [OF d b, of r1] by (simp add: c1 k_def [symmetric] g1_def V_def)
  have d1: "distinct (map bid (blocks g1))" and m1: "b1 \<in> set (blocks g1)"
    using d by (simp_all add: g1_def Vid ids Vmem)
  have s2: "step (ClickBlock k r2) g1 = g2"
    using click_block_step [OF d1 m1, of r2]
    by (simp add: c2 ids g1_def g2_def VV)
  have d2: "distinct (map bid (blocks g2))" and m2: "b2 \<in> set (blocks g2)"
    using d by (simp_all add: g2_def Vid ids Vmem)
  have s3: "step (ClickBlock k r3) g2 = GameScene_handleDig App_handleDig r3 (pos b) (hasGold b) g3"
    using click_block_step [OF d2 m2, of r3]
    by (simp add: c3 ids g2_def g3_def VV)
  have "GameScene_handleDig App_handleDig r3 (pos b) (hasGold b) g3 =
      GameScene_handleDig App_handleDig r3 (pos b) (hasGold b) g"
    by (simp add: handleDig_unfold g3_def key k_def [symmetric] Vfil ids)
  with s1 s2 s3 show ?thesis
    by (simp add: k_def [symmetric] del: step.simps)
qed

lemma init_block_at:
  assumes "k < 486" and "grid_cells ! k = p"
  shows "new_block (rnd k) p \<in> set (init_blocks rnd)"
proof -
  have "init_blocks rnd ! k = new_block (rnd k) p"
    using assms by (simp add: init_blocks_nth)
  moreover have "init_blocks rnd ! k \<in> set (init_blocks rnd)"
    using assms(1) by (simp add: init_blocks_length)
  ultimately show ?thesis by simp
qed

lemma init_blocks_distinct: "distinct (map bid (init_blocks rnd))"
  by (simp add: init_blocks_bid grid_ids_distinct)


lemma run_append: "run (es @ fs) g = run fs (run es g)"
  by (induction es arbitrary: g) simp_all

lemma surface_ids:
  "block_id (0, 0, 0) = ''0-0-0''" "block_id (1, 0, 0) = ''1-0-0''"
  "block_id (2, 0, 0) = ''2-0-0''" "block_id (3, 0, 0) = ''3-0-0''"
  by (simp_all add: block_id_def js_string_of_digit digit_char_def)

lemma surface_cells:
  "grid_cells ! 265 = (0, 0, 0)" "grid_cells ! 319 = (1, 0, 0)"
  "grid_cells ! 373 = (2, 0, 0)" "grid_cells ! 427 = (3, 0, 0)"
  by code_simp+

lemma surface_gold: "0 < goldChance 0"
  by code_simp

lemma dig_always_gold:
  assumes d: "distinct (map bid (blocks g))"
    and b: "new_block 0 (x, 0, z) \<in> set (blocks g)"
  shows "run (dig (block_id (x, 0, z))) g =
      GameScene_handleDig App_handleDig (always 0) (x, 0, z) True g"
  using dig_fresh_block [OF d b, of "always 0" "always 0" "always 0"] surface_gold
  by (simp add: new_block_fields dig_def del: run.simps)


section \<open>The fading of particles\<close>













section \<open>The bonus of a collection\<close>

lemma stale_trace:
  assumes n: "nuggets g = [n0, n1, n2, n3]"
    and ids: "nid n0 = 0" "nid n1 = 1" "nid n2 = 2" "nid n3 = 3"
    and nc: "\<not> collected n0" "\<not> collected n1" "\<not> collected n2" "\<not> collected n3"
    and f: "timers g = []" "gold g = 0" "combo g = 0" "now g = 0" "timerSeq g = 1"
      "comboTimerRef g = None"
  shows "run [ClickNugget 0, Wait 400, ClickNugget 1, Wait 400, ClickNugget 2, Wait 200,
              ClickNugget 3, Wait 100] g =
         g\<lparr>gold := 3, combo := 3, comboTimerRef := Some 7, nuggets := [n3\<lparr>collected := True\<rparr>],
           now := 1100,
           timers := [\<lparr>tid = 6, due = 1300, cb = OnCollect 3 2\<rparr>,
                      \<lparr>tid = 7, due = 3100, cb = ResetCombo\<rparr>],
           timerSeq := 8\<rparr>"
    and "run [ClickNugget 0, Wait 400, ClickNugget 1, Wait 400, ClickNugget 2, Wait 200,
              ClickNugget 3, Wait 100, Wait 200] g =
         g\<lparr>gold := 4, combo := 4, comboTimerRef := Some 8, nuggets := [],
           now := 1300, timers := [\<lparr>tid = 8, due = 3300, cb = ResetCombo\<rparr>], timerSeq := 9\<rparr>"
proof -
  have g: "g = \<lparr>gold = 0, digs = digs g, combo = 0, comboTimerRef = None, blocks = blocks g,
      nuggets = [n0, n1, n2, n3], particles = particles g, nuggetIdRef = nuggetIdRef g,
      particleIdRef = particleIdRef g, now = 0, timers = [], timerSeq = 1\<rparr>"
    using n f by (cases g) simp
  show "run [ClickNugget 0, Wait 400, ClickNugget 1, Wait 400, ClickNugget 2, Wait 200,
              ClickNugget 3, Wait 100] g =
         g\<lparr>gold := 3, combo := 3, comboTimerRef := Some 7, nuggets := [n3\<lparr>collected := True\<rparr>],
           now := 1100,
           timers := [\<lparr>tid = 6, due = 1300, cb = OnCollect 3 2\<rparr>,
                      \<lparr>tid = 7, due = 3100, cb = ResetCombo\<rparr>],
           timerSeq := 8\<rparr>"
    by (subst (1 2) g)
      (simp add: ids nc run_timers.simps next_timer_def fire_def handleCollectGold_unfold
        GoldNugget_handleClick_def setTimeout_def)
  show "run [ClickNugget 0, Wait 400, ClickNugget 1, Wait 400, ClickNugget 2, Wait 200,
              ClickNugget 3, Wait 100, Wait 200] g =
         g\<lparr>gold := 4, combo := 4, comboTimerRef := Some 8, nuggets := [],
           now := 1300, timers := [\<lparr>tid = 8, due = 3300, cb = ResetCombo\<rparr>], timerSeq := 9\<rparr>"
    by (subst (1 2) g)
      (simp add: ids nc run_timers.simps next_timer_def fire_def handleCollectGold_unfold
        GoldNugget_handleClick_def setTimeout_def)
qed


lemma four_nuggets_eq:
  "four_nuggets =
     GameScene_handleDig App_handleDig (always 0) (3, 0, 0) True
       (GameScene_handleDig App_handleDig (always 0) (2, 0, 0) True
         (GameScene_handleDig App_handleDig (always 0) (1, 0, 0) True
           (GameScene_handleDig App_handleDig (always 0) (0, 0, 0) True (mount (always 0)))))"
proof -
  define g0 where "g0 = mount (always 0)"
  define g1 where "g1 = GameScene_handleDig App_handleDig (always 0) (0, 0, 0) True g0"
  define g2 where "g2 = GameScene_handleDig App_handleDig (always 0) (1, 0, 0) True g1"
  define g3 where "g3 = GameScene_handleDig App_handleDig (always 0) (2, 0, 0) True g2"
  have b0: "blocks g0 = init_blocks (always 0)" by (simp add: g0_def mount_fields)
  have b1: "blocks g1 = filter (\<lambda>b. bid b \<noteq> ''0-0-0'') (blocks g0)"
    by (simp add: g1_def handleDig_unfold surface_ids)
  have b2: "blocks g2 = filter (\<lambda>b. bid b \<noteq> ''1-0-0'') (blocks g1)"
    by (simp add: g2_def handleDig_unfold surface_ids)
  have b3: "blocks g3 = filter (\<lambda>b. bid b \<noteq> ''2-0-0'') (blocks g2)"
    by (simp add: g3_def handleDig_unfold surface_ids)
  have d0: "distinct (map bid (blocks g0))" by (simp add: b0 init_blocks_distinct)
  then have d1: "distinct (map bid (blocks g1))" by (simp add: b1 distinct_map_filter)
  then have d2: "distinct (map bid (blocks g2))" by (simp add: b2 distinct_map_filter)
  then have d3: "distinct (map bid (blocks g3))" by (simp add: b3 distinct_map_filter)
  have m: "new_block 0 (0, 0, 0) \<in> set (blocks g0)" "new_block 0 (1, 0, 0) \<in> set (blocks g0)"
    "new_block 0 (2, 0, 0) \<in> set (blocks g0)" "new_block 0 (3, 0, 0) \<in> set (blocks g0)"
    using init_block_at [of 265 "(0, 0, 0)" "always 0"] init_block_at [of 319 "(1, 0, 0)" "always 0"]
      init_block_at [of 373 "(2, 0, 0)" "always 0"] init_block_at [of 427 "(3, 0, 0)" "always 0"]
    by (simp_all add: b0 surface_cells always_apply)
  have i: "bid (new_block 0 (1, 0, 0)) = ''1-0-0''" "bid (new_block 0 (2, 0, 0)) = ''2-0-0''"
    "bid (new_block 0 (3, 0, 0)) = ''3-0-0''"
    by (simp_all add: new_block_fields surface_ids)
  have m1: "new_block 0 (1, 0, 0) \<in> set (blocks g1)" using m i by (simp add: b1)
  have m2: "new_block 0 (2, 0, 0) \<in> set (blocks g2)" using m i by (simp add: b2 b1)
  have m3: "new_block 0 (3, 0, 0) \<in> set (blocks g3)" using m i by (simp add: b3 b2 b1)
  have r0: "run (dig ''0-0-0'') g0 = g1"
    using dig_always_gold [OF d0 m(1)] by (simp add: surface_ids g1_def del: run.simps)
  have r1: "run (dig ''1-0-0'') g1 = g2"
    using dig_always_gold [OF d1 m1] by (simp add: surface_ids g2_def del: run.simps)
  have r2: "run (dig ''2-0-0'') g2 = g3"
    using dig_always_gold [OF d2 m2] by (simp add: surface_ids g3_def del: run.simps)
  have r3: "run (dig ''3-0-0'') g3 =
      GameScene_handleDig App_handleDig (always 0) (3, 0, 0) True g3"
    using dig_always_gold [OF d3 m3] by (simp add: surface_ids del: run.simps)
  have "four_nuggets = GameScene_handleDig App_handleDig (always 0) (3, 0, 0) True g3"
    by (simp add: four_nuggets_def run_append g0_def [symmetric] r0 r1 r2 r3 del: run.simps)
  then show ?thesis by (simp only: g3_def g2_def g1_def g0_def)
qed

lemma four_nuggets_fields:
  "nuggets four_nuggets =
     [new_nugget (0, 0, 0) 0, new_nugget (1, 0, 0) 1, new_nugget (2, 0, 0) 2, new_nugget (3, 0, 0) 3]"
  "timers four_nuggets = []" "gold four_nuggets = 0" "combo four_nuggets = 0"
  "now four_nuggets = 0" "timerSeq four_nuggets = 1" "comboTimerRef four_nuggets = None"
  "digs four_nuggets = 4" "length (particles four_nuggets) = 32"
  by (simp_all add: four_nuggets_eq handleDig_unfold mount_fields numeral_2_eq_2 numeral_3_eq_3)

text \<open>
  C2, at a failing input. In \<open>four_nuggets\<close> the nuggets 0 and 1 are clicked and collected
  one after the other (\<open>combo\<close> becomes 2), then the nuggets 2 and 3 are clicked 200 ms
  apart. When nugget 2 has been collected, \<open>combo\<close> is 3 and \<open>gold\<close> is 3, and the call
  pending for nugget 3 still holds the \<open>combo = 2\<close> of the render in which nugget 3 was
  clicked: the fourth collection then adds \<open>floor(2 / 3) + 1 = 1\<close> to \<open>gold\<close>, not the
  \<open>floor(3 / 3) + 1 = 2\<close> of the combo before the increment.
\<close>

theorem stale_combo_bonus:
  "combo (run [ClickNugget 0, Wait 400, ClickNugget 1, Wait 400, ClickNugget 2, Wait 200,
               ClickNugget 3, Wait 100] four_nuggets) = 3
   \<and> gold (run [ClickNugget 0, Wait 400, ClickNugget 1, Wait 400, ClickNugget 2, Wait 200,
               ClickNugget 3, Wait 100] four_nuggets) = 3
   \<and> timers (run [ClickNugget 0, Wait 400, ClickNugget 1, Wait 400, ClickNugget 2, Wait 200,
               ClickNugget 3, Wait 100] four_nuggets) =
       [\<lparr>tid = 6, due = 1300, cb = OnCollect 3 2\<rparr>, \<lparr>tid = 7, due = 3100, cb = ResetCombo\<rparr>]
   \<and> gold (run [ClickNugget 0, Wait 400, ClickNugget 1, Wait 400, ClickNugget 2, Wait 200,
               ClickNugget 3, Wait 100, Wait 200] four_nuggets) = 4
   \<and> combo (run [ClickNugget 0, Wait 400, ClickNugget 1, Wait 400, ClickNugget 2, Wait 200,
               ClickNugget 3, Wait 100, Wait 200] four_nuggets) = 4"
proof -
  have i: "nid (new_nugget (0, 0, 0) 0) = 0" "nid (new_nugget (1, 0, 0) 1) = 1"
    "nid (new_nugget (2, 0, 0) 2) = 2" "nid (new_nugget (3, 0, 0) 3) = 3"
    and c: "\<not> collected (new_nugget (0, 0, 0) 0)" "\<not> collected (new_nugget (1, 0, 0) 1)"
    "\<not> collected (new_nugget (2, 0, 0) 2)" "\<not> collected (new_nugget (3, 0, 0) 3)"
    by (simp_all add: new_nugget_def)
  note T = stale_trace [OF four_nuggets_fields(1) i c four_nuggets_fields(2-7)]
  show ?thesis
    unfolding T by simp
qed

section \<open>The gold threshold\<close>

lemma decimal_table:
  "fl (2 / 100) = 5764607523034235 / 288230376151711744"
  "fl (5 / 100) = 3602879701896397 / 72057594037927936"
  "fl (8 / 100) = 5764607523034235 / 72057594037927936"
  "fl (11 / 100) = 7926335344172073 / 72057594037927936"
  "fl (14 / 100) = 5044031582654956 / 36028797018963968"
  "fl (17 / 100) = 6124895493223875 / 36028797018963968"
  by code_simp+

text \<open>
  C10 (as amended). The threshold that decides \<open>hasGold\<close> at depth \<open>d\<close> is the binary64
  value of \<open>d * 0.03 + 0.02\<close>. For the depths 0 to 5 of the grid it is within \<open>2^-55\<close> of
  the exact \<open>d * 0.03 + 0.02\<close>; for the depths 0 to 3 it is the Number nearest to 0.02,
  0.05, 0.08 and 0.11, and for the depths 4 and 5 it is one unit in the last place below
  the Number nearest to 0.14 and 0.17. At the surface it is the Number 0.02, which is
  positive, and at the deepest row it is \<open>3062447746611937 / 2^54\<close>
  (0.16999999999999998).
\<close>

theorem goldChance_values:
  "hasGold (new_block r (x, y, z)) = (r < goldChance (- y))
   \<and> goldChance 0 = fl (2 / 100) \<and> 0 < goldChance 0
   \<and> goldChance 1 = fl (5 / 100)
   \<and> goldChance 2 = fl (8 / 100)
   \<and> goldChance 3 = fl (11 / 100)
   \<and> goldChance 4 = fl (14 / 100) - 2 powi (- 55)
   \<and> goldChance 5 = fl (17 / 100) - 2 powi (- 55)
   \<and> goldChance 5 = 3062447746611937 / 2 ^ 54
   \<and> \<bar>goldChance 0 - 2 / 100\<bar> < 2 powi (- 55)
   \<and> \<bar>goldChance 1 - 5 / 100\<bar> < 2 powi (- 55)
   \<and> \<bar>goldChance 2 - 8 / 100\<bar> < 2 powi (- 55)
   \<and> \<bar>goldChance 3 - 11 / 100\<bar> < 2 powi (- 55)
   \<and> \<bar>goldChance 4 - 14 / 100\<bar> < 2 powi (- 55)
   \<and> \<bar>goldChance 5 - 17 / 100\<bar> < 2 powi (- 55)"
  unfolding goldChance_table decimal_table
  by (simp add: new_block_fields power_int_minus)

text \<open>
  The threshold at the deepest row is not \<open>5 * 0.03 + 0.02\<close> in exact arithmetic, and it is
  not the Number 0.17 either; nor is the threshold at the surface exactly 2/100.
\<close>

theorem goldChance_counterexample:
  "goldChance 5 \<noteq> 5 * (3 / 100) + 2 / 100
   \<and> goldChance 5 < 17 / 100
   \<and> goldChance 5 \<noteq> fl (17 / 100)
   \<and> goldChance 0 \<noteq> 2 / 100"
  unfolding goldChance_table decimal_table by simp


end
